theory Spec2Isabelle
  imports Complex_Main "HOL-Library.Char_ord" "HOL-Library.List_Lexorder" "HOL-Library.AList"
    "HOL-Library.Log_Nat"
begin

section \<open>Python values, dictionaries and exceptions\<close>

text \<open>
  The pipeline works on untyped dictionaries whose values come from a JSON payload. A value is
  \<open>None\<close>, a number or a string. Numbers are rationals: every Python \<open>int\<close> and every finite
  \<open>float\<close> is one, and Python's \<open>==\<close> on numbers (\<open>1 == 1.0\<close>) is equality of the rationals.
  A dictionary is an association list in insertion order; a well-formed one has distinct keys.
\<close>

datatype pyval = PNone | PNum rat | PStr string

type_synonym pydict = "(string \<times> pyval) list"

text \<open>
  The reasons for which the fetch module raises \<open>ValueError\<close>: a chunk of more than seven
  days, a start date after the end date, and a date string that \<open>strptime\<close> rejects.
\<close>

datatype valerr =
    DateRangeExceeds7Days int
  | StartAfterEnd
  | BadDateFormat

datatype exn =
    ValueError valerr
  | TypeError
  | IndexError
  | OverflowError
  | RequestError
  | HTTPStatusError
  | RetryError
  | OtherException

text \<open>\<open>d.get(k)\<close> and \<open>d.get(k, default)\<close>: the default stands in for an absent key only.\<close>

definition dict_get :: "pydict \<Rightarrow> string \<Rightarrow> pyval" where
  "dict_get d k = (case map_of d k of None \<Rightarrow> PNone | Some v \<Rightarrow> v)"

definition dict_get_default :: "pydict \<Rightarrow> string \<Rightarrow> pyval \<Rightarrow> pyval" where
  "dict_get_default d k dflt = (case map_of d k of None \<Rightarrow> dflt | Some v \<Rightarrow> v)"

text \<open>\<open>d[k] = v\<close>: an existing key keeps its position, a new one goes to the end.\<close>

definition dict_set :: "pydict \<Rightarrow> string \<Rightarrow> pyval \<Rightarrow> pydict" where
  "dict_set d k v = AList.update k v d"

text \<open>
  Python's \<open><\<close>: numbers compare with numbers, strings with strings (by code point, which is
  the lexicographic order of the characters); every other pair, \<open>None\<close> against \<open>None\<close> included,
  raises \<open>TypeError\<close>.
\<close>

fun py_lt :: "pyval \<Rightarrow> pyval \<Rightarrow> exn + bool" where
  "py_lt (PNum a) (PNum b) = Inr (a < b)"
| "py_lt (PStr a) (PStr b) = Inr (a < b)"
| "py_lt _ _ = Inl TypeError"

text \<open>
  \<open>list.sort(key=..., reverse=True)\<close>: a stable sort into descending key order, items with
  equal keys staying in their original order. It is modelled by a stable insertion sort on
  \<open>py_lt\<close>; on two or more items it raises exactly when some pair of keys does not compare,
  as the library's sort does.
\<close>

fun insert_desc :: "('a \<Rightarrow> pyval) \<Rightarrow> 'a \<Rightarrow> 'a list \<Rightarrow> exn + 'a list" where
  "insert_desc key x [] = Inr [x]"
| "insert_desc key x (y # ys) =
     (case py_lt (key x) (key y) of
        Inl e \<Rightarrow> Inl e
      | Inr True \<Rightarrow> (case insert_desc key x ys of Inl e \<Rightarrow> Inl e | Inr zs \<Rightarrow> Inr (y # zs))
      | Inr False \<Rightarrow> Inr (x # y # ys))"

fun sort_desc :: "('a \<Rightarrow> pyval) \<Rightarrow> 'a list \<Rightarrow> exn + 'a list" where
  "sort_desc key [] = Inr []"
| "sort_desc key (x # xs) =
     (case sort_desc key xs of Inl e \<Rightarrow> Inl e | Inr ys \<Rightarrow> insert_desc key x ys)"

section \<open>Deduplicator (\<open>utils/preprocessing.py\<close>, \<open>deduplicate_data\<close>)\<close>

type_synonym natkey = "pyval \<times> pyval \<times> pyval"

definition natural_key :: "pydict \<Rightarrow> natkey" where
  "natural_key r =
     (dict_get r ''settlementDate'', dict_get r ''settlementPeriod'', dict_get r ''psrType'')"

text \<open>The sort key \<open>lambda x: x.get("publishTime", "")\<close>.\<close>

definition publish_key :: "pydict \<Rightarrow> pyval" where
  "publish_key x = dict_get_default x ''publishTime'' (PStr '''')"

text \<open>
  \<open>record_groups[key].append(record)\<close> on a \<open>defaultdict(list)\<close>: the groups are kept in the
  order in which their keys were first seen.
\<close>

fun group_append :: "(natkey \<times> pydict list) list \<Rightarrow> natkey \<Rightarrow> pydict \<Rightarrow> (natkey \<times> pydict list) list" where
  "group_append [] k r = [(k, [r])]"
| "group_append ((k', rs) # g) k r =
     (if k' = k then (k', rs @ [r]) # g else (k', rs) # group_append g k r)"

definition record_groups :: "pydict list \<Rightarrow> (natkey \<times> pydict list) list" where
  "record_groups data = foldl (\<lambda>g r. group_append g (natural_key r) r) [] data"

text \<open>
  The second loop: a group of more than one record is sorted by publish time, newest first,
  and the head of every group is appended to \<open>deduplicated_data\<close>.
\<close>

fun keep_heads :: "(natkey \<times> pydict list) list \<Rightarrow> pydict list \<Rightarrow> exn + pydict list" where
  "keep_heads [] deduplicated_data = Inr deduplicated_data"
| "keep_heads ((k, records) # rest) deduplicated_data =
     (case (if length records > 1 then sort_desc publish_key records else Inr records) of
        Inl e \<Rightarrow> Inl e
      | Inr [] \<Rightarrow> Inl IndexError
      | Inr (r # _) \<Rightarrow> keep_heads rest (deduplicated_data @ [r]))"

definition deduplicate_data :: "pydict list \<Rightarrow> exn + pydict list" where
  "deduplicate_data data = (if data = [] then Inr [] else keep_heads (record_groups data) [])"


text \<open>
  The grouping invariant used below: keys are distinct, no group is empty, and every record
  sits in the group of its own natural key.
\<close>

definition groups_ok :: "(natkey \<times> pydict list) list \<Rightarrow> bool" where
  "groups_ok g \<longleftrightarrow>
     distinct (map fst g) \<and> (\<forall>(k, rs) \<in> set g. rs \<noteq> [] \<and> (\<forall>r \<in> set rs. natural_key r = k))"

section \<open>Field Normalizer (\<open>utils/preprocessing.py\<close>, \<open>handle_missing_fields\<close>)\<close>

definition expected_fields :: "string list" where
  "expected_fields =
     [''publishTime'', ''businessType'', ''psrType'', ''quantity'',
      ''startTime'', ''settlementDate'', ''settlementPeriod'', ''fuelType'', ''region'']"

text \<open>\<open>stats[field] += 1\<close> on a \<open>defaultdict(int)\<close>.\<close>

definition bump :: "(string \<times> nat) list \<Rightarrow> string \<Rightarrow> (string \<times> nat) list" where
  "bump stats field =
     AList.update field (case map_of stats field of None \<Rightarrow> 1 | Some c \<Rightarrow> c + 1) stats"

text \<open>The loop over \<open>expected_fields\<close>, on the record under construction and the counters.\<close>

fun fill_expected ::
  "pydict \<Rightarrow> string list \<Rightarrow> pydict \<times> (string \<times> nat) list \<Rightarrow> pydict \<times> (string \<times> nat) list" where
  "fill_expected record [] (processed_record, missing_stats) = (processed_record, missing_stats)"
| "fill_expected record (field # fields) (processed_record, missing_stats) =
     (case map_of record field of
        Some v \<Rightarrow>
          if v \<noteq> PNone
          then fill_expected record fields (dict_set processed_record field v, missing_stats)
          else fill_expected record fields
                 (dict_set processed_record field PNone, bump missing_stats field)
      | None \<Rightarrow>
          fill_expected record fields
            (dict_set processed_record field PNone, bump missing_stats field))"

text \<open>The loop over \<open>record.items()\<close>.\<close>

fun copy_extra :: "(string \<times> pyval) list \<Rightarrow> pydict \<Rightarrow> pydict" where
  "copy_extra [] processed_record = processed_record"
| "copy_extra ((field, v) # items) processed_record =
     (if field \<notin> set expected_fields
      then copy_extra items (dict_set processed_record field v)
      else copy_extra items processed_record)"

fun process_records ::
  "pydict list \<Rightarrow> pydict list \<times> (string \<times> nat) list \<Rightarrow> pydict list \<times> (string \<times> nat) list" where
  "process_records [] (processed_data, missing_stats) = (processed_data, missing_stats)"
| "process_records (record # rest) (processed_data, missing_stats) =
     (case fill_expected record expected_fields ([], missing_stats) of
        (processed_record, missing_stats') \<Rightarrow>
          process_records rest
            (processed_data @ [copy_extra record processed_record], missing_stats'))"

text \<open>
  The function returns \<open>processed_data\<close>; the counters only feed the warning that is logged.
\<close>

definition handle_missing_fields :: "pydict list \<Rightarrow> pydict list" where
  "handle_missing_fields data = (if data = [] then [] else fst (process_records data ([], [])))"

section \<open>Double-precision arithmetic\<close>

text \<open>
  The quality score is computed in Python floats. A finite double is a rational, and each
  operation returns the exact result rounded to the nearest double, ties to the even
  mantissa. \<open>fl\<close> is that rounding (53-bit mantissa, gradual underflow below \<open>2^-1022\<close>;
  overflow to infinity does not arise for the values computed here).
\<close>

definition round_half_even :: "rat \<Rightarrow> int" where
  "round_half_even x =
     (let f = \<lfloor>x\<rfloor>; r = x - of_int f
      in if r < 1 / 2 then f else if 1 / 2 < r then f + 1 else if even f then f else f + 1)"

text \<open>
  The binary exponent \<open>e\<close> of a non-zero \<open>x\<close>, with \<open>2^e \<le> |x| < 2^(e+1)\<close>: the difference of
  the bit lengths of numerator and denominator, or one less.
\<close>

definition ilog2 :: "rat \<Rightarrow> int" where
  "ilog2 x =
     (case quotient_of \<bar>x\<bar> of
        (p, q) \<Rightarrow>
          let e = bitlen p - bitlen q
          in if power_int 2 e \<le> \<bar>x\<bar> then e else e - 1)"

definition fl :: "rat \<Rightarrow> rat" where
  "fl x =
     (if x = 0 then 0
      else let u = power_int 2 (max (ilog2 x) (- 1022) - 52)
           in of_int (round_half_even (x / u)) * u)"

text \<open>
  \<open>a / b\<close> on two ints (correctly rounded), \<open>x * y\<close> on floats, and \<open>round(x, 2)\<close>, which
  rounds the exact value of the double to two decimals, ties to even, and returns the nearest
  double. Every divisor below is the length of a non-empty list.
\<close>

definition py_truediv :: "int \<Rightarrow> int \<Rightarrow> rat" where
  "py_truediv a b = fl (of_int a / of_int b)"

definition py_mul :: "rat \<Rightarrow> rat \<Rightarrow> rat" where
  "py_mul x y = fl (x * y)"

definition py_round2 :: "rat \<Rightarrow> rat" where
  "py_round2 x = fl (of_int (round_half_even (x * 100)) / 100)"

section \<open>Quality Gate, processed (\<open>utils/preprocessing.py\<close>, \<open>validate_processed_data\<close>)\<close>

definition critical_fields :: "string list" where
  "critical_fields = [''settlementDate'', ''settlementPeriod'', ''psrType'', ''quantity'']"

text \<open>Truth value of a Python object in \<open>if x:\<close>.\<close>

fun py_truthy :: "pyval \<Rightarrow> bool" where
  "py_truthy PNone = False"
| "py_truthy (PNum x) = (x \<noteq> 0)"
| "py_truthy (PStr s) = (s \<noteq> [])"

text \<open>The inner loop over the critical fields of one record.\<close>

fun check_critical ::
  "pydict \<Rightarrow> string list \<Rightarrow> (string \<times> nat) list \<times> bool \<Rightarrow> (string \<times> nat) list \<times> bool" where
  "check_critical record [] (missing_critical, has_missing_critical) =
     (missing_critical, has_missing_critical)"
| "check_critical record (field # fields) (missing_critical, has_missing_critical) =
     (if dict_get record field = PNone
      then check_critical record fields (bump missing_critical field, True)
      else check_critical record fields (missing_critical, has_missing_critical))"

record scan_state =
  missing_critical :: "(string \<times> nat) list"
  missing_records :: nat
  fuel_type_set :: "pyval list"
  settlement_dates :: "pyval list"
  quantities :: "pyval list"

text \<open>
  One pass of the loop over the records. \<open>missing_records\<close> is the source's counter
  \<open>records_with_missing_critical\<close>; the two sets are lists without repetition.
\<close>

definition scan_record :: "scan_state \<Rightarrow> pydict \<Rightarrow> scan_state" where
  "scan_record st record =
     (case check_critical record critical_fields (missing_critical st, False) of
        (mc, has_missing_critical) \<Rightarrow>
          \<lparr> missing_critical = mc,
            missing_records =
              (if has_missing_critical then missing_records st + 1 else missing_records st),
            fuel_type_set =
              (if py_truthy (dict_get record ''psrType'')
               then List.insert (dict_get record ''psrType'') (fuel_type_set st)
               else fuel_type_set st),
            settlement_dates =
              (if py_truthy (dict_get record ''settlementDate'')
               then List.insert (dict_get record ''settlementDate'') (settlement_dates st)
               else settlement_dates st),
            quantities =
              (if dict_get record ''quantity'' \<noteq> PNone
               then quantities st @ [dict_get record ''quantity'']
               else quantities st) \<rparr>)"

definition scan_records :: "pydict list \<Rightarrow> scan_state" where
  "scan_records data =
     foldl scan_record
       \<lparr> missing_critical = [], missing_records = 0, fuel_type_set = [],
         settlement_dates = [], quantities = [] \<rparr> data"

text \<open>
  \<open>min\<close> and \<open>max\<close> of a non-empty iterable and \<open>sorted\<close>, which compare with \<open><\<close> and raise
  \<open>TypeError\<close> on values that do not compare. Comparison of finite numbers is exact in
  Python, between ints and floats too.
\<close>

fun py_min_from :: "pyval \<Rightarrow> pyval list \<Rightarrow> exn + pyval" where
  "py_min_from best [] = Inr best"
| "py_min_from best (x # xs) =
     (case py_lt x best of
        Inl e \<Rightarrow> Inl e
      | Inr b \<Rightarrow> py_min_from (if b then x else best) xs)"

fun py_max_from :: "pyval \<Rightarrow> pyval list \<Rightarrow> exn + pyval" where
  "py_max_from best [] = Inr best"
| "py_max_from best (x # xs) =
     (case py_lt best x of
        Inl e \<Rightarrow> Inl e
      | Inr b \<Rightarrow> py_max_from (if b then x else best) xs)"

fun insert_asc :: "pyval \<Rightarrow> pyval list \<Rightarrow> exn + pyval list" where
  "insert_asc x [] = Inr [x]"
| "insert_asc x (y # ys) =
     (case py_lt y x of
        Inl e \<Rightarrow> Inl e
      | Inr True \<Rightarrow> (case insert_asc x ys of Inl e \<Rightarrow> Inl e | Inr zs \<Rightarrow> Inr (y # zs))
      | Inr False \<Rightarrow> Inr (x # y # ys))"

fun py_sorted :: "pyval list \<Rightarrow> exn + pyval list" where
  "py_sorted [] = Inr []"
| "py_sorted (x # xs) = (case py_sorted xs of Inl e \<Rightarrow> Inl e | Inr ys \<Rightarrow> insert_asc x ys)"

text \<open>
  The average \<open>sum(quantities) / len(quantities)\<close> is arithmetic on Python numbers: ints are
  added exactly and floats with rounding, a float sum may become infinite, and an int too
  large for a float raises \<open>OverflowError\<close> when it is converted; a string raises
  \<open>TypeError\<close>. That arithmetic is not part of this development. The average is a parameter
  of the quality gate: a function \<open>average\<close> from the list of quantities to the float it
  yields, of a type \<open>'f\<close> left open, or to the exception it raises.
\<close>

record 'f quantity_summary =
  q_min :: pyval
  q_max :: pyval
  q_avg :: 'f
  q_count :: nat

record 'f quality_report =
  record_count :: nat
  fuel_types :: "pyval list"
  date_min :: pyval
  date_max :: pyval
  unique_dates :: nat
  missing_stats :: "(string \<times> nat \<times> rat) list"
  data_quality_score :: rat
  quantity_stats :: "'f quantity_summary option"
  records_with_missing_critical :: nat

datatype 'f validation_result =
    ValidationError string
  | ValidationSuccess "'f quality_report"

text \<open>The entries of \<open>missing_stats\<close>: count and percentage of the fields that were counted.\<close>

definition missing_stats_of :: "(string \<times> nat) list \<Rightarrow> nat \<Rightarrow> (string \<times> nat \<times> rat) list" where
  "missing_stats_of mc n =
     concat (map (\<lambda>field.
        case map_of mc field of
          None \<Rightarrow> []
        | Some c \<Rightarrow> [(field, c, py_mul (py_truediv (int c) (int n)) 100)]) critical_fields)"

definition quantity_stats_of ::
  "(pyval list \<Rightarrow> exn + 'f) \<Rightarrow> pyval list \<Rightarrow> exn + 'f quantity_summary option" where
  "quantity_stats_of average qs =
     (case qs of
        [] \<Rightarrow> Inr None
      | q # rest \<Rightarrow>
          (case py_min_from q rest of
             Inl e \<Rightarrow> Inl e
           | Inr lo \<Rightarrow>
               (case py_max_from q rest of
                  Inl e \<Rightarrow> Inl e
                | Inr hi \<Rightarrow>
                    (case average qs of
                       Inl e \<Rightarrow> Inl e
                     | Inr avg \<Rightarrow>
                         Inr (Some \<lparr> q_min = lo, q_max = hi, q_avg = avg,
                                     q_count = length qs \<rparr>)))))"

definition date_bound :: "(pyval \<Rightarrow> pyval list \<Rightarrow> exn + pyval) \<Rightarrow> pyval list \<Rightarrow> exn + pyval" where
  "date_bound pick ds = (case ds of [] \<Rightarrow> Inr PNone | d # rest \<Rightarrow> pick d rest)"

definition validate_processed_data ::
  "(pyval list \<Rightarrow> exn + 'f) \<Rightarrow> pydict list \<Rightarrow> exn + 'f validation_result" where
  "validate_processed_data average data =
     (if data = [] then Inr (ValidationError ''No data to validate'')
      else
        let st = scan_records data;
            n = length data;
            score = py_mul (py_truediv (int n - int (missing_records st)) (int n)) 100
        in case quantity_stats_of average (quantities st) of
             Inl e \<Rightarrow> Inl e
           | Inr qstats \<Rightarrow>
               (case py_sorted (fuel_type_set st) of
                  Inl e \<Rightarrow> Inl e
                | Inr fts \<Rightarrow>
                    (case date_bound py_min_from (settlement_dates st) of
                       Inl e \<Rightarrow> Inl e
                     | Inr dmin \<Rightarrow>
                         (case date_bound py_max_from (settlement_dates st) of
                            Inl e \<Rightarrow> Inl e
                          | Inr dmax \<Rightarrow>
                              Inr (ValidationSuccess
                                \<lparr> record_count = n,
                                  fuel_types = fts,
                                  date_min = dmin,
                                  date_max = dmax,
                                  unique_dates = length (settlement_dates st),
                                  missing_stats = missing_stats_of (missing_critical st) n,
                                  data_quality_score = py_round2 score,
                                  quantity_stats = qstats,
                                  records_with_missing_critical = missing_records st \<rparr>)))))"

text \<open>A record has a missing critical field when \<open>get\<close> gives \<open>None\<close> for one of the four.\<close>

definition has_missing_critical :: "pydict \<Rightarrow> bool" where
  "has_missing_critical r \<longleftrightarrow> (\<exists>f \<in> set critical_fields. dict_get r f = PNone)"

text \<open>
  Records in the types of the data model: fuel type and settlement date are strings or null,
  the quantity is a number or null.
\<close>

definition is_str_or_none :: "pyval \<Rightarrow> bool" where
  "is_str_or_none v = (case v of PNum _ \<Rightarrow> False | _ \<Rightarrow> True)"

definition is_num_or_none :: "pyval \<Rightarrow> bool" where
  "is_num_or_none v = (case v of PStr _ \<Rightarrow> False | _ \<Rightarrow> True)"

definition normalized_record :: "pydict \<Rightarrow> bool" where
  "normalized_record r \<longleftrightarrow>
     is_str_or_none (dict_get r ''psrType'') \<and>
     is_str_or_none (dict_get r ''settlementDate'') \<and>
     is_num_or_none (dict_get r ''quantity'')"


section \<open>Chunk Planner (\<open>utils/fetcher.py\<close>, \<open>date_chunks\<close>)\<close>

text \<open>
  Every datetime of the fetch module is a midnight (\<open>strptime\<close> with the format
  \<open>%Y-%m-%d\<close>, plus whole days), so a datetime is its day number: the proleptic Gregorian
  ordinal, from 1 for 0001-01-01 to 3652059 for 9999-12-31. \<open>(b - a).days\<close> is \<open>b - a\<close>.
  \<open>d + timedelta(days=n)\<close> raises \<open>OverflowError\<close> when \<open>n\<close> is beyond the range of a
  \<open>timedelta\<close> or the sum is not a date of the calendar.
\<close>

definition MINYEAR_ORDINAL :: int where
  "MINYEAR_ORDINAL = 1"

definition MAXYEAR_ORDINAL :: int where
  "MAXYEAR_ORDINAL = 3652059"

definition valid_datetime :: "int \<Rightarrow> bool" where
  "valid_datetime d \<longleftrightarrow> MINYEAR_ORDINAL \<le> d \<and> d \<le> MAXYEAR_ORDINAL"

definition add_days :: "int \<Rightarrow> int \<Rightarrow> exn + int" where
  "add_days d n =
     (if 999999999 < \<bar>n\<bar> then Inl OverflowError
      else if d + n < MINYEAR_ORDINAL \<or> MAXYEAR_ORDINAL < d + n then Inl OverflowError
      else Inr (d + n))"

definition MAX_CHUNK_DAYS :: int where
  "MAX_CHUNK_DAYS = 6"

text \<open>
  The body of the loop up to the \<open>yield\<close>: the chunk that starts at \<open>current\<close>, or the
  exception of the date arithmetic.
\<close>

definition chunk_at :: "int \<Rightarrow> int \<Rightarrow> int \<Rightarrow> exn + int \<times> int" where
  "chunk_at current end_dt days =
     (case add_days current (days - 1) of
        Inl e \<Rightarrow> Inl e
      | Inr chunk_end \<Rightarrow>
          (let chunk_end = min chunk_end end_dt;
               actual_days = (chunk_end - current) + 1
           in if actual_days > days
              then (case add_days current (days - 1) of
                      Inl e \<Rightarrow> Inl e
                    | Inr chunk_end \<Rightarrow> Inr (current, chunk_end))
              else Inr (current, chunk_end)))"

text \<open>
  The generator is consumed by its only caller until it ends, so it is modelled by the list
  of the pairs it yields together with the way it ends: \<open>None\<close> when the loop condition
  fails, or the exception raised inside it (\<open>isl\<close> tells a raised exception from a value,
  \<open>projl\<close> and \<open>projr\<close> take them out). With a chunk size of zero the loop may never end:
  the whole result is \<open>None\<close> then.
\<close>

partial_function (option) date_chunks_from ::
  "int \<Rightarrow> int \<Rightarrow> int \<Rightarrow> (int \<times> int) list \<Rightarrow> ((int \<times> int) list \<times> exn option) option" where
  "date_chunks_from current end_dt days yielded =
     (if current \<le> end_dt then
        (let chunk = chunk_at current end_dt days
         in if isl chunk then Some (yielded, Some (projl chunk))
            else (let next_start = add_days (snd (projr chunk)) 1
                  in if isl next_start
                     then Some (yielded @ [projr chunk], Some (projl next_start))
                     else date_chunks_from (projr next_start) end_dt days
                            (yielded @ [projr chunk])))
      else Some (yielded, None))"

definition date_chunks ::
  "int \<Rightarrow> int \<Rightarrow> int \<Rightarrow> ((int \<times> int) list \<times> exn option) option" where
  "date_chunks start end_dt days = date_chunks_from start end_dt days []"

section \<open>Chunk Fetcher (\<open>utils/fetcher.py\<close>, \<open>fetch_single_chunk\<close>)\<close>

text \<open>
  What one HTTP request can do: \<open>client.get\<close> raises a \<open>RequestError\<close>,
  \<open>raise_for_status\<close> raises an \<open>HTTPStatusError\<close>, the body is not a JSON object with a
  list of objects under \<open>data\<close> (some other exception), or it is such an object, with or
  without the \<open>data\<close> key. The upstream service is a function from the number of requests
  sent so far and the requested range to that outcome.
\<close>

datatype http_outcome =
    HttpRequestError
  | HttpStatusError
  | HttpBadPayload
  | HttpPayload "pydict list option"

type_synonym network = "nat \<Rightarrow> int \<times> int \<Rightarrow> http_outcome"

definition transform_record :: "pydict \<Rightarrow> pydict" where
  "transform_record record =
     [(''publishTime'', dict_get record ''publishTime''),
      (''businessType'', dict_get record ''businessType''),
      (''psrType'', dict_get record ''psrType''),
      (''fuelType'', dict_get record ''psrType''),
      (''quantity'', dict_get record ''quantity''),
      (''startTime'', dict_get record ''startTime''),
      (''settlementDate'', dict_get record ''settlementDate''),
      (''settlementPeriod'', dict_get record ''settlementPeriod''),
      (''region'', PStr ''GB'')]"

text \<open>
  The function body, one attempt: the result, and the number of requests sent afterwards.
\<close>

definition fetch_attempt ::
  "network \<Rightarrow> nat \<Rightarrow> int \<Rightarrow> int \<Rightarrow> (exn + pydict list) \<times> nat" where
  "fetch_attempt net sent from_dt to_dt =
     (let days_diff = (to_dt - from_dt) + 1
      in if days_diff > 7 then (Inl (ValueError (DateRangeExceeds7Days days_diff)), sent)
         else
           (case net sent (from_dt, to_dt) of
              HttpRequestError \<Rightarrow> (Inl RequestError, sent + 1)
            | HttpStatusError \<Rightarrow> (Inl HTTPStatusError, sent + 1)
            | HttpBadPayload \<Rightarrow> (Inl OtherException, sent + 1)
            | HttpPayload raw_data \<Rightarrow>
                (Inr (map transform_record (case raw_data of None \<Rightarrow> [] | Some rs \<Rightarrow> rs)),
                 sent + 1)))"

text \<open>
  The \<open>@retry\<close> decorator: a \<open>RequestError\<close> or \<open>HTTPStatusError\<close> is tried again, three
  attempts in all, after which \<open>RetryError\<close> is raised; any other exception leaves at once.
\<close>

definition retryable :: "exn \<Rightarrow> bool" where
  "retryable e \<longleftrightarrow> e = RequestError \<or> e = HTTPStatusError"

fun retry_loop ::
  "nat \<Rightarrow> network \<Rightarrow> nat \<Rightarrow> int \<Rightarrow> int \<Rightarrow> (exn + pydict list) \<times> nat" where
  "retry_loop 0 net sent from_dt to_dt = (Inl RetryError, sent)"
| "retry_loop (Suc attempts_left) net sent from_dt to_dt =
     (case fetch_attempt net sent from_dt to_dt of
        (Inl e, sent') \<Rightarrow>
          if retryable e then retry_loop attempts_left net sent' from_dt to_dt
          else (Inl e, sent')
      | (Inr data, sent') \<Rightarrow> (Inr data, sent'))"

definition fetch_single_chunk ::
  "network \<Rightarrow> nat \<Rightarrow> int \<Rightarrow> int \<Rightarrow> (exn + pydict list) \<times> nat" where
  "fetch_single_chunk net sent from_dt to_dt =
     retry_loop (Suc (Suc (Suc 0))) net sent from_dt to_dt"

section \<open>Ingestion Orchestrator (\<open>utils/fetcher.py\<close>, \<open>fetch_generation_data\<close>)\<close>

record fetch_state =
  all_data :: "pydict list"
  successful_chunks :: nat
  failed_chunks :: nat
  requests_sent :: nat
  sleeps :: nat

text \<open>
  The loop over the planned chunks. A chunk whose fetch raises is counted in
  \<open>failed_chunks\<close> and the loop goes on; a chunk with an empty result is counted nowhere.
\<close>

fun fetch_loop ::
  "network \<Rightarrow> int \<Rightarrow> (int \<times> int) list \<Rightarrow> int \<Rightarrow> fetch_state \<Rightarrow> fetch_state" where
  "fetch_loop net expected_chunks [] chunk_num st = st"
| "fetch_loop net expected_chunks ((from_dt, to_dt) # chunks) chunk_num st =
     (case fetch_single_chunk net (requests_sent st) from_dt to_dt of
        (Inr data, sent') \<Rightarrow>
          (let st1 = (if data \<noteq> []
                      then st\<lparr>all_data := all_data st @ data,
                              successful_chunks := successful_chunks st + 1\<rparr>
                      else st);
               st2 = (if chunk_num < expected_chunks then st1\<lparr>sleeps := sleeps st1 + 1\<rparr> else st1)
           in fetch_loop net expected_chunks chunks (chunk_num + 1) (st2\<lparr>requests_sent := sent'\<rparr>))
      | (Inl e, sent') \<Rightarrow>
          fetch_loop net expected_chunks chunks (chunk_num + 1)
            (st\<lparr>failed_chunks := failed_chunks st + 1, requests_sent := sent'\<rparr>))"

text \<open>
  \<open>strptime\<close> is a parameter: it gives the day number of a date string, or nothing when the
  string is rejected (\<open>ValueError\<close>). \<open>fetch_generation_run\<close> is the function body up to
  its last state, \<open>fetch_generation_data\<close> what the function returns: \<open>all_data\<close> alone.
  The chunks the generator yields are fetched one after the other; an exception with which
  the generator ends is raised in the header of the \<open>for\<close> loop, outside the handler of a
  chunk, and leaves the function.
\<close>

definition fetch_generation_run ::
  "(string \<Rightarrow> int option) \<Rightarrow> network \<Rightarrow> string \<Rightarrow> string \<Rightarrow> (exn + fetch_state) option" where
  "fetch_generation_run strptime net start_date end_date =
     (case strptime start_date of
        None \<Rightarrow> Some (Inl (ValueError BadDateFormat))
      | Some start \<Rightarrow>
          (case strptime end_date of
             None \<Rightarrow> Some (Inl (ValueError BadDateFormat))
           | Some end_dt \<Rightarrow>
               if start > end_dt then Some (Inl (ValueError StartAfterEnd))
               else
                 (let total_days = (end_dt - start) + 1;
                      expected_chunks = (total_days + MAX_CHUNK_DAYS - 1) div MAX_CHUNK_DAYS
                  in case date_chunks start end_dt MAX_CHUNK_DAYS of
                       None \<Rightarrow> None
                     | Some (chunks, ending) \<Rightarrow>
                         (let st = fetch_loop net expected_chunks chunks 1
                                     \<lparr> all_data = [], successful_chunks = 0, failed_chunks = 0,
                                       requests_sent = 0, sleeps = 0 \<rparr>
                          in case ending of
                               None \<Rightarrow> Some (Inr st)
                             | Some e \<Rightarrow> Some (Inl e)))))"

definition fetch_generation_data ::
  "(string \<Rightarrow> int option) \<Rightarrow> network \<Rightarrow> string \<Rightarrow> string \<Rightarrow> (exn + pydict list) option" where
  "fetch_generation_data strptime net start_date end_date =
     map_option (map_sum id all_data) (fetch_generation_run strptime net start_date end_date)"

text \<open>
  The outcome of each planned chunk in turn, every fetch starting from the request count the
  previous one left.
\<close>

fun chunk_outcomes :: "network \<Rightarrow> nat \<Rightarrow> (int \<times> int) list \<Rightarrow> (exn + pydict list) list" where
  "chunk_outcomes net sent [] = []"
| "chunk_outcomes net sent ((from_dt, to_dt) # chunks) =
     (case fetch_single_chunk net sent from_dt to_dt of
        (res, sent') \<Rightarrow> res # chunk_outcomes net sent' chunks)"

definition records_of :: "exn + pydict list \<Rightarrow> pydict list" where
  "records_of res = (case res of Inl e \<Rightarrow> [] | Inr data \<Rightarrow> data)"

text \<open>
  Consecutive chunks: each one starts the day after the one before it ends.
\<close>

fun contiguous :: "(int \<times> int) list \<Rightarrow> bool" where
  "contiguous [] = True"
| "contiguous [c] = True"
| "contiguous (c # d # rest) = (fst d = snd c + 1 \<and> contiguous (d # rest))"

text \<open>Chunks that do not overlap: every later chunk starts after an earlier one has ended.\<close>

fun non_overlapping :: "(int \<times> int) list \<Rightarrow> bool" where
  "non_overlapping [] = True"
| "non_overlapping (c # cs) = (list_all (\<lambda>d. snd c < fst d) cs \<and> non_overlapping cs)"

text \<open>A chunk is well formed for a size limit: it is not reversed and spans at most that many days.\<close>

definition chunk_within :: "int \<Rightarrow> int \<times> int \<Rightarrow> bool" where
  "chunk_within days c \<longleftrightarrow> fst c \<le> snd c \<and> snd c - fst c + 1 \<le> days"

section \<open>Sample inputs\<close>

text \<open>
  A fragment of \<open>strptime\<close> for the examples: five date strings and their day numbers. Three upstream services: one that answers every request
  with an empty \<open>data\<close> array, one whose body is never a JSON object, and one that serves
  one record per request but answers every request for the range starting on 2024-01-07
  with an HTTP error status.
\<close>

definition sample_strptime :: "string \<Rightarrow> int option" where
  "sample_strptime =
     map_of [(''2024-01-01'', 738886), (''2024-01-02'', 738887), (''2024-01-14'', 738899),
             (''9999-12-20'', 3652048), (''9999-12-31'', 3652059)]"

definition net_no_records :: network where
  "net_no_records sent rng = HttpPayload (Some [])"

definition net_bad_payload :: network where
  "net_bad_payload sent rng = HttpBadPayload"

definition sample_upstream_record :: pydict where
  "sample_upstream_record =
     [(''publishTime'', PStr ''2024-01-01T00:00:00Z''), (''businessType'', PStr ''A75''),
      (''psrType'', PStr ''Solar''), (''quantity'', PNum 100),
      (''startTime'', PStr ''2024-01-01T00:00:00Z''), (''settlementDate'', PStr ''2024-01-01''),
      (''settlementPeriod'', PNum 1)]"

definition net_second_chunk_down :: network where
  "net_second_chunk_down sent rng =
     (if fst rng = 738892 then HttpStatusError else HttpPayload (Some [sample_upstream_record]))"

text \<open>
  Three normalized records of which the second lacks its settlement period and its quantity,
  and a raw record with three of the expected fields and one field outside the schema.
\<close>

definition sample_partial_data :: "pydict list" where
  "sample_partial_data =
     [[(''settlementDate'', PStr ''2024-01-01''), (''settlementPeriod'', PNum 1),
       (''psrType'', PStr ''Solar''), (''quantity'', PNum (201 / 2))],
      [(''settlementDate'', PStr ''2024-01-01''), (''settlementPeriod'', PNone),
       (''psrType'', PStr ''Wind Onshore''), (''quantity'', PNone)],
      [(''settlementDate'', PStr ''2024-01-02''), (''settlementPeriod'', PNum 1),
       (''psrType'', PStr ''Wind Offshore''), (''quantity'', PNum 300)]]"

definition sample_raw_record :: pydict where
  "sample_raw_record =
     [(''psrType'', PStr ''Solar''), (''quantity'', PNone),
      (''settlementDate'', PStr ''2024-01-01''), (''extraField'', PStr ''extra_value'')]"

text \<open>
  An upstream service that answers the first three requests with an HTTP error status, so
  that the first chunk of a run uses up its attempts, and serves one record per request
  afterwards.
\<close>

definition net_first_chunk_down :: network where
  "net_first_chunk_down sent rng =
     (if sent < 3 then HttpStatusError else HttpPayload (Some [sample_upstream_record]))"

text \<open>
  A complete record and one without a quantity; a list of 160 records of which 23 are
  complete, so that the exact percentage of complete records is 14.375.
\<close>

definition sample_complete_record :: pydict where
  "sample_complete_record =
     [(''settlementDate'', PStr ''2024-01-01''), (''settlementPeriod'', PNum 1),
      (''psrType'', PStr ''Solar''), (''quantity'', PNum 100)]"

definition sample_incomplete_record :: pydict where
  "sample_incomplete_record =
     [(''settlementDate'', PStr ''2024-01-01''), (''settlementPeriod'', PNum 1),
      (''psrType'', PStr ''Solar''), (''quantity'', PNone)]"

definition sample_tie_data :: "pydict list" where
  "sample_tie_data =
     replicate 23 sample_complete_record @ replicate 137 sample_incomplete_record"

text \<open>Lists of strings and lists of numbers, as the scan of typed records collects them.\<close>

definition all_str :: "pyval list \<Rightarrow> bool" where
  "all_str xs \<longleftrightarrow> (\<forall>x \<in> set xs. \<exists>s. x = PStr s)"

definition all_num :: "pyval list \<Rightarrow> bool" where
  "all_num xs \<longleftrightarrow> (\<forall>x \<in> set xs. \<exists>q. x = PNum q)"

text \<open>What the Field Normalizer makes of one record, without the counters.\<close>

definition normalize_record :: "pydict \<Rightarrow> pydict" where
  "normalize_record r = copy_extra r (fst (fill_expected r expected_fields ([], [])))"

text \<open>
  The exact percentage of complete records among \<open>n\<close> of which \<open>m\<close> miss a critical field,
  and the condition under which it has a single nearest number of two decimals: a hundred
  times it is not halfway between two integers.
\<close>

definition exact_percentage :: "nat \<Rightarrow> nat \<Rightarrow> rat" where
  "exact_percentage n m = 100 * (of_nat n - of_nat m) / of_nat n"

definition halfway :: "rat \<Rightarrow> bool" where
  "halfway q \<longleftrightarrow> q - of_int \<lfloor>q\<rfloor> = 1 / 2"

text \<open>The score of a result, when it is a report, for statements about two results at once.\<close>

definition score_of :: "exn + 'f validation_result \<Rightarrow> rat option" where
  "score_of res =
     (case res of
        Inr (ValidationSuccess rep) \<Rightarrow> Some (data_quality_score rep)
      | _ \<Rightarrow> None)"

text \<open>The mean in exact arithmetic, the parameter \<open>average\<close> of the examples.\<close>

fun exact_sum :: "pyval list \<Rightarrow> exn + rat" where
  "exact_sum [] = Inr 0"
| "exact_sum (PNum x # xs) = (case exact_sum xs of Inl e \<Rightarrow> Inl e | Inr s \<Rightarrow> Inr (x + s))"
| "exact_sum (_ # xs) = Inl TypeError"

definition exact_mean :: "pyval list \<Rightarrow> exn + rat" where
  "exact_mean qs =
     (case exact_sum qs of Inl e \<Rightarrow> Inl e | Inr s \<Rightarrow> Inr (s / of_nat (length qs)))"

text \<open>
  The quality gate returns a report when averaging the quantities raises nothing: there is
  no quantity to average, or the average is a value.
\<close>

definition averaging_returns :: "(pyval list \<Rightarrow> exn + 'f) \<Rightarrow> pydict list \<Rightarrow> bool" where
  "averaging_returns average data \<longleftrightarrow>
     quantities (scan_records data) = [] \<or> \<not> isl (average (quantities (scan_records data)))"

section \<open>The Deduplicator: what it returns, and when it raises\<close>

subsection \<open>Sorting keeps the items\<close>

lemma insert_desc_set:
  "insert_desc key x ys = Inr zs \<Longrightarrow> set zs = insert x (set ys) \<and> length zs = Suc (length ys)"
proof (induction ys arbitrary: zs)
  case Nil
  then show ?case by auto
next
  case (Cons y ys)
  show ?case
  proof (cases "py_lt (key x) (key y)")
    case (Inl e)
    with Cons.prems show ?thesis by simp
  next
    case (Inr b)
    show ?thesis
    proof (cases b)
      case False
      with Inr Cons.prems show ?thesis by auto
    next
      case True
      show ?thesis
      proof (cases "insert_desc key x ys")
        case (Inl e)
        with Inr True Cons.prems show ?thesis by simp
      next
        case (Inr ws)
        from Cons.IH[OF Inr] have "set ws = insert x (set ys)" "length ws = Suc (length ys)" by simp_all
        moreover from Inr \<open>py_lt (key x) (key y) = Inr b\<close> True Cons.prems have "zs = y # ws" by simp
        ultimately show ?thesis by auto
      qed
    qed
  qed
qed

lemma sort_desc_set: "sort_desc key xs = Inr ys \<Longrightarrow> set ys = set xs \<and> length ys = length xs"
proof (induction xs arbitrary: ys)
  case Nil
  then show ?case by simp
next
  case (Cons x xs)
  show ?case
  proof (cases "sort_desc key xs")
    case (Inl e)
    with Cons.prems show ?thesis by simp
  next
    case (Inr ws)
    with Cons.prems have "insert_desc key x ws = Inr ys" by simp
    from insert_desc_set[OF this] Cons.IH[OF Inr] show ?thesis by simp
  qed
qed

subsection \<open>Grouping by natural key\<close>

lemma group_append_keys: "set (map fst (group_append g k r)) = insert k (set (map fst g))"
  by (induction g k r rule: group_append.induct) auto

lemma group_append_ok: "groups_ok g \<Longrightarrow> groups_ok (group_append g (natural_key r) r)"
proof (induction g "natural_key r" r rule: group_append.induct)
  case (1 r)
  then show ?case by (simp add: groups_ok_def)
next
  case (2 k' rs g r)
  then show ?case using group_append_keys[of g "natural_key r" r]
    by (auto simp: groups_ok_def)
qed

lemma group_append_members: "(\<Union>p \<in> set (group_append g k r). set (snd p)) = insert r (\<Union>p \<in> set g. set (snd p))"
  by (induction g k r rule: group_append.induct) auto

lemma group_append_length: "length (group_append g k r) \<le> Suc (length g)"
  by (induction g k r rule: group_append.induct) auto
lemma foldl_groups_ok:
  "groups_ok g \<Longrightarrow> groups_ok (foldl (\<lambda>g r. group_append g (natural_key r) r) g data)"
  by (induction data arbitrary: g) (simp_all add: group_append_ok)

lemma foldl_groups_keys:
  "set (map fst (foldl (\<lambda>g r. group_append g (natural_key r) r) g data)) =
     set (map fst g) \<union> natural_key ` set data"
proof (induction data arbitrary: g)
  case Nil
  show ?case by simp
next
  case (Cons r data)
  have "set (map fst (foldl (\<lambda>g r. group_append g (natural_key r) r) g (r # data))) =
        set (map fst (group_append g (natural_key r) r)) \<union> natural_key ` set data"
    using Cons.IH[of "group_append g (natural_key r) r"] by simp
  also have "\<dots> = insert (natural_key r) (set (map fst g)) \<union> natural_key ` set data"
    by (simp only: group_append_keys)
  finally show ?case by simp
qed

lemma foldl_groups_members:
  "(\<Union>p \<in> set (foldl (\<lambda>g r. group_append g (natural_key r) r) g data). set (snd p)) =
     (\<Union>p \<in> set g. set (snd p)) \<union> set data"
proof (induction data arbitrary: g)
  case Nil
  show ?case by simp
next
  case (Cons r data)
  have "(\<Union>p \<in> set (foldl (\<lambda>g r. group_append g (natural_key r) r) g (r # data)). set (snd p)) =
        (\<Union>p \<in> set (group_append g (natural_key r) r). set (snd p)) \<union> set data"
    using Cons.IH[of "group_append g (natural_key r) r"] by simp
  also have "\<dots> = insert r (\<Union>p \<in> set g. set (snd p)) \<union> set data"
    by (simp only: group_append_members)
  finally show ?case by simp
qed

lemma foldl_groups_length:
  "length (foldl (\<lambda>g r. group_append g (natural_key r) r) g data) \<le> length g + length data"
proof (induction data arbitrary: g)
  case Nil
  show ?case by simp
next
  case (Cons r data)
  have "length (foldl (\<lambda>g r. group_append g (natural_key r) r) g (r # data))
        \<le> length (group_append g (natural_key r) r) + length data"
    using Cons.IH[of "group_append g (natural_key r) r"] by simp
  also have "\<dots> \<le> Suc (length g) + length data"
    using group_append_length[of g "natural_key r" r] by simp
  finally show ?case by simp
qed

subsection \<open>One survivor per group\<close>

lemma keep_heads_step:
  "keep_heads ((k, records) # rest) acc = Inr out \<Longrightarrow>
   \<exists>r. r \<in> set records \<and> keep_heads rest (acc @ [r]) = Inr out"
proof -
  assume a: "keep_heads ((k, records) # rest) acc = Inr out"
  show ?thesis
  proof (cases "length records > 1")
    case True
    show ?thesis
    proof (cases "sort_desc publish_key records")
      case (Inl e)
      with a True show ?thesis by simp
    next
      case (Inr sorted)
      from sort_desc_set[OF Inr] have ss: "set sorted = set records" by simp
      show ?thesis
      proof (cases sorted)
        case Nil
        with a True Inr show ?thesis by simp
      next
        case (Cons r tl)
        with ss have "r \<in> set records" by auto
        moreover from a True Inr Cons have "keep_heads rest (acc @ [r]) = Inr out" by simp
        ultimately show ?thesis by blast
      qed
    qed
  next
    case False
    show ?thesis
    proof (cases records)
      case Nil
      with a show ?thesis by simp
    next
      case (Cons r tl)
      with a False have "keep_heads rest (acc @ [r]) = Inr out" by simp
      with Cons show ?thesis by auto
    qed
  qed
qed

lemma keep_heads_spec:
  "keep_heads g acc = Inr out \<Longrightarrow>
   \<exists>hs. out = acc @ hs \<and> length hs = length g \<and>
     (\<forall>i < length g. hs ! i \<in> set (snd (g ! i)))"
proof (induction g arbitrary: acc out)
  case Nil
  then show ?case by simp
next
  case (Cons p rest)
  obtain k records where p: "p = (k, records)" by (cases p)
  from keep_heads_step[of k records rest acc out] Cons.prems p obtain r where
    rin: "r \<in> set records" and rec: "keep_heads rest (acc @ [r]) = Inr out"
    by blast
  from Cons.IH[OF rec] obtain hs where
    hs: "out = (acc @ [r]) @ hs" "length hs = length rest"
        "\<forall>i < length rest. hs ! i \<in> set (snd (rest ! i))"
    by blast
  have "\<forall>i < length (p # rest). (r # hs) ! i \<in> set (snd ((p # rest) ! i))"
  proof (intro allI impI)
    fix i assume "i < length (p # rest)"
    then show "(r # hs) ! i \<in> set (snd ((p # rest) ! i))"
      using rin hs(3) p by (cases i) auto
  qed
  moreover have "out = acc @ (r # hs)" using hs(1) by simp
  moreover have "length (r # hs) = length (p # rest)" using hs(2) by simp
  ultimately show ?case by blast
qed


lemma keep_heads_keys:
  assumes ok: "groups_ok g" and kh: "keep_heads g [] = Inr out"
  shows "map natural_key out = map fst g" and "set out \<subseteq> (\<Union>p \<in> set g. set (snd p))"
proof -
  from keep_heads_spec[OF kh] have len: "length out = length g"
    and mem: "\<And>i. i < length g \<Longrightarrow> out ! i \<in> set (snd (g ! i))" by auto
  show "map natural_key out = map fst g"
  proof (rule nth_equalityI)
    show "length (map natural_key out) = length (map fst g)" using len by simp
  next
    fix i assume "i < length (map natural_key out)"
    then have i: "i < length g" using len by simp
    then have "g ! i \<in> set g" by simp
    with ok mem[OF i] have "natural_key (out ! i) = fst (g ! i)"
      by (auto simp: groups_ok_def)
    with i len show "map natural_key out ! i = map fst g ! i" by simp
  qed
  show "set out \<subseteq> (\<Union>p \<in> set g. set (snd p))"
  proof
    fix r assume "r \<in> set out"
    then obtain i where i: "i < length out" "out ! i = r" by (auto simp: in_set_conv_nth)
    with len mem[of i] have "r \<in> set (snd (g ! i))" "g ! i \<in> set g" by auto
    then show "r \<in> (\<Union>p \<in> set g. set (snd p))" by blast
  qed
qed

lemma groups_ok_Nil: "groups_ok []"
  by (simp add: groups_ok_def)

text \<open>
  Whenever the Deduplicator returns, its output is no longer than the input, holds only input
  records, and has exactly one record for each natural key of the input.
\<close>

lemma deduplicate_data_sound:
  assumes "deduplicate_data data = Inr out"
  shows "length out \<le> length data"
    and "distinct (map natural_key out)"
    and "set (map natural_key out) = natural_key ` set data"
    and "set out \<subseteq> set data"
proof -
  let ?g = "record_groups data"
  have ok: "groups_ok ?g"
    unfolding record_groups_def by (rule foldl_groups_ok[OF groups_ok_Nil])
  have keys: "set (map fst ?g) = natural_key ` set data"
    unfolding record_groups_def using foldl_groups_keys[of "[]" data] by simp
  have mems: "(\<Union>p \<in> set ?g. set (snd p)) = set data"
    unfolding record_groups_def using foldl_groups_members[of "[]" data] by simp
  have len: "length ?g \<le> length data"
    unfolding record_groups_def using foldl_groups_length[of "[]" data] by simp
  have all: "length out \<le> length data \<and> distinct (map natural_key out) \<and>
       set (map natural_key out) = natural_key ` set data \<and> set out \<subseteq> set data"
  proof (cases "data = []")
    case True
    with assms show ?thesis by (auto simp: deduplicate_data_def)
  next
    case False
    with assms have kh: "keep_heads ?g [] = Inr out" by (simp add: deduplicate_data_def)
    note k = keep_heads_keys[OF ok kh]
    have "length out = length ?g" using k(1) by (metis length_map)
    moreover have "distinct (map natural_key out)" using k(1) ok by (simp add: groups_ok_def)
    moreover have "set (map natural_key out) = natural_key ` set data" using k(1) keys by simp
    moreover have "set out \<subseteq> set data" using k(2) mems by simp
    ultimately show ?thesis using len by simp
  qed
  from all show "length out \<le> length data" by simp
  from all show "distinct (map natural_key out)" by simp
  from all show "set (map natural_key out) = natural_key ` set data" by simp
  from all show "set out \<subseteq> set data" by simp
qed

lemma record_groups_pair:
  "natural_key r1 = natural_key r2 \<Longrightarrow> record_groups [r1, r2] = [(natural_key r1, [r1, r2])]"
  by (simp add: record_groups_def)

text \<open>
  Two records with one natural key and string publish times: the later one survives, in
  either input order.
\<close>

lemma dedup_pair_later_second:
  assumes "natural_key r1 = natural_key r2"
    and "publish_key r1 = PStr a" and "publish_key r2 = PStr b" and "a < b"
  shows "deduplicate_data [r1, r2] = Inr [r2]" and "deduplicate_data [r2, r1] = Inr [r2]"
proof -
  from assms(4) have nba: "\<not> b < a" by simp
  show "deduplicate_data [r1, r2] = Inr [r2]"
    using assms by (simp add: deduplicate_data_def record_groups_pair)
  show "deduplicate_data [r2, r1] = Inr [r2]"
    using assms(1,2,3) nba record_groups_pair[of r2 r1] by (simp add: deduplicate_data_def)
qed

text \<open>
  Two records with one natural key, one of them with the sort key \<open>None\<close>: the comparison
  raises.
\<close>

lemma dedup_pair_none:
  assumes "natural_key r1 = natural_key r2" and "publish_key r1 = PNone"
  shows "deduplicate_data [r1, r2] = Inl TypeError" and "deduplicate_data [r2, r1] = Inl TypeError"
proof -
  show "deduplicate_data [r1, r2] = Inl TypeError"
    using assms by (simp add: deduplicate_data_def record_groups_pair)
  have "py_lt (publish_key r2) PNone = Inl TypeError" by (cases "publish_key r2") simp_all
  then show "deduplicate_data [r2, r1] = Inl TypeError"
    using assms record_groups_pair[of r2 r1] by (simp add: deduplicate_data_def)
qed

subsection \<open>String publish times never raise\<close>

lemma insert_desc_str:
  "key x = PStr s \<Longrightarrow> \<forall>y \<in> set ys. \<exists>t. key y = PStr t \<Longrightarrow> \<exists>zs. insert_desc key x ys = Inr zs"
proof (induction ys)
  case Nil
  show ?case by simp
next
  case (Cons y ys)
  then obtain t where t: "key y = PStr t" by auto
  from Cons obtain zs where zs: "insert_desc key x ys = Inr zs" by auto
  show ?case
    by (cases "s < t") (simp_all add: Cons.prems(1) t zs)
qed

lemma sort_desc_str:
  "\<forall>x \<in> set xs. \<exists>s. key x = PStr s \<Longrightarrow> \<exists>ys. sort_desc key xs = Inr ys"
proof (induction xs)
  case Nil
  show ?case by simp
next
  case (Cons x xs)
  then obtain s where s: "key x = PStr s" by auto
  from Cons obtain ys where ys: "sort_desc key xs = Inr ys" by auto
  from sort_desc_set[OF ys] Cons.prems have "\<forall>y \<in> set ys. \<exists>t. key y = PStr t" by simp
  from insert_desc_str[OF s this] ys show ?case by simp
qed

lemma keep_heads_str:
  "\<forall>p \<in> set g. snd p \<noteq> [] \<and> (\<forall>r \<in> set (snd p). \<exists>s. publish_key r = PStr s) \<Longrightarrow>
   \<exists>out. keep_heads g acc = Inr out"
proof (induction g arbitrary: acc)
  case Nil
  show ?case by simp
next
  case (Cons p g)
  obtain k records where p: "p = (k, records)" by (cases p)
  from Cons.prems p have ne: "records \<noteq> []"
    and st: "\<forall>r \<in> set records. \<exists>s. publish_key r = PStr s" by auto
  from Cons.prems have rest: "\<forall>p \<in> set g. snd p \<noteq> [] \<and> (\<forall>r \<in> set (snd p). \<exists>s. publish_key r = PStr s)"
    by simp
  show ?case
  proof (cases "length records > 1")
    case True
    from sort_desc_str[OF st] obtain sorted where s: "sort_desc publish_key records = Inr sorted"
      by blast
    from sort_desc_set[OF s] ne have "sorted \<noteq> []" by auto
    then obtain r tl where "sorted = r # tl" by (cases sorted) auto
    with True s p Cons.IH[OF rest, of "acc @ [r]"] show ?thesis by simp
  next
    case False
    from ne obtain r tl where "records = r # tl" by (cases records) auto
    with False p Cons.IH[OF rest, of "acc @ [r]"] show ?thesis by simp
  qed
qed

text \<open>
  When every publish time is a string, or the key is absent, the Deduplicator returns.
\<close>

lemma deduplicate_data_returns_on_strings:
  assumes "\<forall>r \<in> set data. \<exists>s. publish_key r = PStr s"
  shows "\<exists>out. deduplicate_data data = Inr out"
proof (cases "data = []")
  case True
  then show ?thesis by (simp add: deduplicate_data_def)
next
  case False
  let ?g = "record_groups data"
  have ok: "groups_ok ?g"
    unfolding record_groups_def by (rule foldl_groups_ok[OF groups_ok_Nil])
  have mems: "(\<Union>p \<in> set ?g. set (snd p)) = set data"
    unfolding record_groups_def using foldl_groups_members[of "[]" data] by simp
  have "\<forall>p \<in> set ?g. snd p \<noteq> [] \<and> (\<forall>r \<in> set (snd p). \<exists>s. publish_key r = PStr s)"
  proof
    fix p assume p: "p \<in> set ?g"
    with ok have "snd p \<noteq> []" by (auto simp: groups_ok_def)
    moreover from p mems have "set (snd p) \<subseteq> set data" by blast
    ultimately show "snd p \<noteq> [] \<and> (\<forall>r \<in> set (snd p). \<exists>s. publish_key r = PStr s)"
      using assms by blast
  qed
  from keep_heads_str[OF this, of "[]"] False show ?thesis by (simp add: deduplicate_data_def)
qed

subsection \<open>Null publish times\<close>

lemma publish_key_absent: "map_of r ''publishTime'' = None \<Longrightarrow> publish_key r = PStr ''''"
  by (simp add: publish_key_def dict_get_default_def)

lemma publish_key_present: "map_of r ''publishTime'' = Some v \<Longrightarrow> publish_key r = v"
  by (simp add: publish_key_def dict_get_default_def)

text \<open>
  Claim C10. The sort key of the Deduplicator is the empty string for a record without a
  \<open>publishTime\<close> key, but \<open>None\<close> itself for a record whose \<open>publishTime\<close> is present and
  null. So for two records with the same natural key, one with a null \<open>publishTime\<close> and one
  with a string, deduplication raises \<open>TypeError\<close> (in either order) and returns no survivor.
\<close>

theorem dedup_null_publish_time_raises:
  "(map_of r ''publishTime'' = None \<longrightarrow> publish_key r = PStr '''') \<and>
   (map_of r ''publishTime'' = Some PNone \<longrightarrow> publish_key r = PNone) \<and>
   (natural_key r1 = natural_key r2 \<and> map_of r1 ''publishTime'' = Some PNone \<and>
      map_of r2 ''publishTime'' = Some (PStr s) \<longrightarrow>
        deduplicate_data [r1, r2] = Inl TypeError \<and> deduplicate_data [r2, r1] = Inl TypeError)"
  using dedup_pair_none[of r1 r2] publish_key_absent[of r] publish_key_present[of r PNone]
    publish_key_present[of r1 PNone]
  by blast

theorem dedup_null_publish_time_raises_witness:
  "deduplicate_data
     [[(''settlementDate'', PStr ''2024-01-01''), (''settlementPeriod'', PNum 1),
       (''psrType'', PStr ''Solar''), (''quantity'', PNum 100), (''publishTime'', PNone)],
      [(''settlementDate'', PStr ''2024-01-01''), (''settlementPeriod'', PNum 1),
       (''psrType'', PStr ''Solar''), (''quantity'', PNum 105),
       (''publishTime'', PStr ''2024-01-01T01:00:00Z'')]] = Inl TypeError"
  using dedup_null_publish_time_raises[of "[]"
     "[(''settlementDate'', PStr ''2024-01-01''), (''settlementPeriod'', PNum 1),
       (''psrType'', PStr ''Solar''), (''quantity'', PNum 100), (''publishTime'', PNone)]"
     "[(''settlementDate'', PStr ''2024-01-01''), (''settlementPeriod'', PNum 1),
       (''psrType'', PStr ''Solar''), (''quantity'', PNum 105),
       (''publishTime'', PStr ''2024-01-01T01:00:00Z'')]" "''2024-01-01T01:00:00Z''"]
  by (simp add: natural_key_def dict_get_def)

text \<open>
  Claim C1. The Deduplicator is to return, for every input list, at most as many records as
  it was given and exactly one per natural key. Lemma \<open>deduplicate_data_sound\<close> shows that
  every list it returns is such a list, \<open>deduplicate_data_returns_on_strings\<close> that it
  returns whenever the publish times are strings, and \<open>dedup_pair_later_second\<close> that the
  later of the two timestamps of the claim survives. It does not return for every input: two
  records of one natural key, as the Chunk Fetcher builds them from upstream records that
  carry no \<open>publishTime\<close>, raise \<open>TypeError\<close> where the claim has one survivor.
\<close>

theorem dedup_fetched_null_publish_times:
  "deduplicate_data
     [transform_record [(''settlementDate'', PStr ''2024-01-01''), (''settlementPeriod'', PNum 1),
        (''psrType'', PStr ''Solar''), (''quantity'', PNum 100)],
      transform_record [(''settlementDate'', PStr ''2024-01-01''), (''settlementPeriod'', PNum 1),
        (''psrType'', PStr ''Solar''), (''quantity'', PNum 105)]] = Inl TypeError"
  by (simp add: deduplicate_data_def record_groups_def natural_key_def dict_get_def
      transform_record_def publish_key_def dict_get_default_def)

section \<open>The Chunk Planner covers the range\<close>

lemma add_days_in_calendar:
  "\<bar>n\<bar> \<le> 999999999 \<Longrightarrow> 1 \<le> d + n \<Longrightarrow> d + n \<le> 3652059 \<Longrightarrow> add_days d n = Inr (d + n)"
  by (simp add: add_days_def MINYEAR_ORDINAL_def MAXYEAR_ORDINAL_def)

lemma add_days_past_calendar: "3652059 < d + n \<Longrightarrow> add_days d n = Inl OverflowError"
  by (simp add: add_days_def MAXYEAR_ORDINAL_def)

lemma chunk_at_in_calendar:
  assumes "0 < days" and "1 \<le> current" and "current + (days - 1) \<le> 3652059"
  shows "chunk_at current end_dt days = Inr (current, min (current + (days - 1)) end_dt)"
proof -
  have "add_days current (days - 1) = Inr (current + (days - 1))"
    using assms by (intro add_days_in_calendar) simp_all
  then show ?thesis using assms(1) by (simp add: chunk_at_def Let_def min_def)
qed

lemma chunk_at_past_calendar:
  "3652059 < current + (days - 1) \<Longrightarrow> chunk_at current end_dt days = Inl OverflowError"
  by (simp add: chunk_at_def add_days_past_calendar)

lemma date_chunks_from_past_end:
  "end_dt < current \<Longrightarrow> date_chunks_from current end_dt days yielded = Some (yielded, None)"
  by (subst date_chunks_from.simps) simp

lemma date_chunks_from_raise_before_yield:
  "current \<le> end_dt \<Longrightarrow> chunk_at current end_dt days = Inl e \<Longrightarrow>
   date_chunks_from current end_dt days yielded = Some (yielded, Some e)"
  by (subst date_chunks_from.simps) simp

lemma date_chunks_from_raise_after_yield:
  "current \<le> end_dt \<Longrightarrow> chunk_at current end_dt days = Inr c \<Longrightarrow>
   add_days (snd c) 1 = Inl e \<Longrightarrow>
   date_chunks_from current end_dt days yielded = Some (yielded @ [c], Some e)"
  by (subst date_chunks_from.simps) simp

lemma date_chunks_from_next:
  "current \<le> end_dt \<Longrightarrow> chunk_at current end_dt days = Inr c \<Longrightarrow>
   add_days (snd c) 1 = Inr nxt \<Longrightarrow>
   date_chunks_from current end_dt days yielded =
     date_chunks_from nxt end_dt days (yielded @ [c])"
  by (subst date_chunks_from.simps) simp

lemma date_chunks_from_step:
  assumes "0 < days" and "1 \<le> current" and "current \<le> end_dt"
    and "current + (days - 1) \<le> 3652059" and "end_dt + 1 \<le> 3652059"
  shows "date_chunks_from current end_dt days yielded =
     date_chunks_from (min (current + (days - 1)) end_dt + 1) end_dt days
       (yielded @ [(current, min (current + (days - 1)) end_dt)])"
proof -
  let ?ce = "min (current + (days - 1)) end_dt"
  have c: "chunk_at current end_dt days = Inr (current, ?ce)"
    by (rule chunk_at_in_calendar[OF assms(1,2,4)])
  have "add_days ?ce 1 = Inr (?ce + 1)"
    using assms by (intro add_days_in_calendar) (simp_all add: min_def)
  then have "add_days (snd (current, ?ce)) 1 = Inr (?ce + 1)" by simp
  from date_chunks_from_next[OF assms(3) c this] show ?thesis .
qed

lemma contiguous_Cons:
  "cs \<noteq> [] \<Longrightarrow> contiguous (c # cs) \<longleftrightarrow> fst (hd cs) = snd c + 1 \<and> contiguous cs"
  by (cases cs) auto

lemma date_chunks_from_spec:
  assumes "0 < days" and "1 \<le> current" and "current \<le> end_dt"
    and "end_dt + (days - 1) \<le> 3652059" and "end_dt + 1 \<le> 3652059"
  shows "\<exists>cs. date_chunks_from current end_dt days yielded = Some (yielded @ cs, None) \<and>
           cs \<noteq> [] \<and> fst (hd cs) = current \<and> snd (last cs) = end_dt \<and> contiguous cs \<and>
           (\<forall>c \<in> set cs. fst c \<le> snd c \<and> snd c - fst c + 1 \<le> days)"
  using assms(2,3)
proof (induction "nat (end_dt - current)" arbitrary: current yielded rule: less_induct)
  case less
  let ?ce = "min (current + (days - 1)) end_dt"
  have cal: "current + (days - 1) \<le> 3652059" using less.prems assms(4) by simp
  have step: "date_chunks_from current end_dt days yielded =
      date_chunks_from (?ce + 1) end_dt days (yielded @ [(current, ?ce)])"
    by (rule date_chunks_from_step[OF assms(1) less.prems cal assms(5)])
  have ce: "current \<le> ?ce" "?ce \<le> end_dt" "?ce - current + 1 \<le> days"
    using assms(1) less.prems by (auto simp: min_def)
  show ?case
  proof (cases "?ce = end_dt")
    case True
    then have "date_chunks_from current end_dt days yielded =
        Some (yielded @ [(current, end_dt)], None)"
      using step date_chunks_from_past_end[of end_dt "end_dt + 1" days "yielded @ [(current, end_dt)]"]
      by simp
    moreover have "end_dt - current + 1 \<le> days" using ce(3) True by simp
    ultimately show ?thesis using less.prems
      by (intro exI[of _ "[(current, end_dt)]"]) simp
  next
    case False
    with ce have lt: "?ce + 1 \<le> end_dt" by simp
    have one: "1 \<le> ?ce + 1" using ce(1) less.prems(1) by simp
    have "nat (end_dt - (?ce + 1)) < nat (end_dt - current)" using ce lt by simp
    from less.hyps[OF this one lt, of "yielded @ [(current, ?ce)]"]
    obtain cs where cs: "date_chunks_from (?ce + 1) end_dt days (yielded @ [(current, ?ce)]) =
          Some ((yielded @ [(current, ?ce)]) @ cs, None)"
      "cs \<noteq> []" "fst (hd cs) = ?ce + 1" "snd (last cs) = end_dt" "contiguous cs"
      "\<forall>c \<in> set cs. fst c \<le> snd c \<and> snd c - fst c + 1 \<le> days"
      by blast
    have 1: "date_chunks_from current end_dt days yielded =
        Some (yielded @ ((current, ?ce) # cs), None)"
      using step cs(1) by simp
    have 2: "contiguous ((current, ?ce) # cs)"
      using cs(2,3,5) by (simp add: contiguous_Cons)
    have 3: "\<forall>c \<in> set ((current, ?ce) # cs). fst c \<le> snd c \<and> snd c - fst c + 1 \<le> days"
      using cs(6) ce by simp
    have 4: "snd (last ((current, ?ce) # cs)) = end_dt" using cs(2,4) by simp
    show ?thesis
      using 1 2 3 4 by (intro exI[of _ "(current, ?ce) # cs"]) simp
  qed
qed

lemma contiguous_later:
  "contiguous (c # cs) \<Longrightarrow> \<forall>d \<in> set (c # cs). fst d \<le> snd d \<Longrightarrow> \<forall>d \<in> set cs. snd c < fst d"
proof (induction cs arbitrary: c)
  case Nil
  then show ?case by simp
next
  case (Cons e cs)
  from Cons.prems have e: "fst e = snd c + 1" "contiguous (e # cs)" "fst e \<le> snd e" by simp_all
  from Cons.prems have "\<forall>d \<in> set (e # cs). fst d \<le> snd d" by simp
  from Cons.IH[OF e(2) this] have "\<forall>d \<in> set cs. snd e < fst d" .
  with e show ?case by auto
qed

lemma contiguous_tail: "contiguous (c # cs) \<Longrightarrow> contiguous cs"
  by (cases cs) simp_all

lemma contiguous_non_overlapping:
  "contiguous cs \<Longrightarrow> \<forall>d \<in> set cs. fst d \<le> snd d \<Longrightarrow> non_overlapping cs"
proof (induction cs)
  case Nil
  show ?case by simp
next
  case (Cons c cs)
  have "non_overlapping cs" using Cons by (simp add: contiguous_tail)
  moreover have "\<forall>d \<in> set cs. snd c < fst d" by (rule contiguous_later[OF Cons.prems])
  ultimately show ?case by (simp add: list_all_iff)
qed

text \<open>
  Three plans that leave the calendar: the last two days of the year 9999 with the default
  chunk size, two days of 2024 with a chunk size of four million days, and the twelve days
  up to 9999-12-31, where both chunks are yielded before the day after the last one is
  computed.
\<close>

lemma plan_last_days_of_calendar:
  "date_chunks 3652058 3652059 MAX_CHUNK_DAYS = Some ([], Some OverflowError)"
  unfolding date_chunks_def MAX_CHUNK_DAYS_def
  by (rule date_chunks_from_raise_before_yield) (simp_all add: chunk_at_past_calendar)

lemma plan_huge_chunk_size:
  "date_chunks 738886 738887 4000000 = Some ([], Some OverflowError)"
  unfolding date_chunks_def
  by (rule date_chunks_from_raise_before_yield) (simp_all add: chunk_at_past_calendar)

lemma plan_to_last_day:
  "date_chunks 3652048 3652059 MAX_CHUNK_DAYS =
     Some ([(3652048, 3652053), (3652054, 3652059)], Some OverflowError)"
proof -
  have a: "chunk_at 3652048 3652059 6 = Inr (3652048, 3652053)"
    using chunk_at_in_calendar[of 6 3652048 3652059] by simp
  have b: "chunk_at 3652054 3652059 6 = Inr (3652054, 3652059)"
    using chunk_at_in_calendar[of 6 3652054 3652059] by simp
  have n: "add_days 3652053 1 = Inr 3652054" by (simp add: add_days_in_calendar)
  have o: "add_days 3652059 1 = Inl OverflowError" by (simp add: add_days_past_calendar)
  have "date_chunks_from 3652048 3652059 6 [] =
      date_chunks_from 3652054 3652059 6 ([] @ [(3652048, 3652053)])"
    by (rule date_chunks_from_next[OF _ a]) (simp_all add: n)
  also have "\<dots> = Some (([] @ [(3652048, 3652053)]) @ [(3652054, 3652059)], Some OverflowError)"
    by (rule date_chunks_from_raise_after_yield[OF _ b]) (simp_all add: o)
  finally show ?thesis by (simp add: date_chunks_def MAX_CHUNK_DAYS_def)
qed

text \<open>
  Claim C3 has the Chunk Planner cover every range of dates with start not after end, for
  every positive chunk size. For the dates 9999-12-30 and 9999-12-31 and the default size of
  six days the planner raises \<open>OverflowError\<close> before it yields a chunk: the end of the
  first chunk, five days after the start, is computed before it is cut back to the end date,
  and it is no date of the calendar.
\<close>

theorem date_chunks_last_days_counterexample:
  "valid_datetime 3652058 \<and> valid_datetime 3652059 \<and> (3652058::int) \<le> 3652059 \<and>
   0 < MAX_CHUNK_DAYS \<and>
   date_chunks 3652058 3652059 MAX_CHUNK_DAYS = Some ([], Some OverflowError)"
proof -
  have "valid_datetime 3652058" "valid_datetime 3652059" "0 < MAX_CHUNK_DAYS"
    by (simp_all add: valid_datetime_def MINYEAR_ORDINAL_def MAXYEAR_ORDINAL_def
        MAX_CHUNK_DAYS_def)
  with plan_last_days_of_calendar show ?thesis by simp
qed

text \<open>
  Claim C3, amended. For a start date not after the end date and a positive chunk size such
  that the day after the end date, and the day that lies the chunk size less one after the
  end date, are dates of the calendar (not after 9999-12-31), the Chunk Planner yields a
  finite, non-empty sequence of chunks and ends without an exception: the first chunk starts
  at the start date, the last ends at the end date, each chunk starts the day after the one
  before it ends, no two chunks overlap, and every chunk spans at most the chunk size.
\<close>

theorem date_chunks_cover:
  "valid_datetime start \<Longrightarrow> start \<le> end_dt \<Longrightarrow> 0 < days \<Longrightarrow>
   end_dt + 1 \<le> MAXYEAR_ORDINAL \<Longrightarrow> end_dt + (days - 1) \<le> MAXYEAR_ORDINAL \<Longrightarrow>
   \<exists>cs. date_chunks start end_dt days = Some (cs, None) \<and> cs \<noteq> [] \<and>
     fst (hd cs) = start \<and> snd (last cs) = end_dt \<and>
     contiguous cs \<and> non_overlapping cs \<and>
     list_all (chunk_within days) cs"
proof -
  assume a: "valid_datetime start" "start \<le> end_dt" "0 < days"
    "end_dt + 1 \<le> MAXYEAR_ORDINAL" "end_dt + (days - 1) \<le> MAXYEAR_ORDINAL"
  from a(1) have one: "1 \<le> start" by (simp add: valid_datetime_def MINYEAR_ORDINAL_def)
  from a(4,5) have cal: "end_dt + (days - 1) \<le> 3652059" "end_dt + 1 \<le> 3652059"
    by (simp_all add: MAXYEAR_ORDINAL_def)
  from date_chunks_from_spec[OF a(3) one a(2) cal, of "[]"] obtain cs where
    cs: "date_chunks_from start end_dt days [] = Some (cs, None)" "cs \<noteq> []" "fst (hd cs) = start"
      "snd (last cs) = end_dt" "contiguous cs"
      "\<forall>c \<in> set cs. fst c \<le> snd c \<and> snd c - fst c + 1 \<le> days"
    by auto
  from cs(6) have "\<forall>d \<in> set cs. fst d \<le> snd d" by simp
  from contiguous_non_overlapping[OF cs(5) this] have "non_overlapping cs" .
  moreover from cs(6) have "list_all (chunk_within days) cs"
    by (simp add: list_all_iff chunk_within_def)
  ultimately show ?thesis using cs(1-5) unfolding date_chunks_def by blast
qed

lemma sample_chunks:
  "date_chunks 738886 738899 MAX_CHUNK_DAYS =
     Some ([(738886, 738891), (738892, 738897), (738898, 738899)], None)"
  unfolding date_chunks_def MAX_CHUNK_DAYS_def
  by (simp add: date_chunks_from_step date_chunks_from_past_end)

theorem date_chunks_cover_witness:
  "valid_datetime 738886 \<and> (738886::int) \<le> 738899 \<and> (0::int) < MAX_CHUNK_DAYS \<and>
   738899 + 1 \<le> MAXYEAR_ORDINAL \<and> 738899 + (MAX_CHUNK_DAYS - 1) \<le> MAXYEAR_ORDINAL \<and>
   date_chunks 738886 738899 MAX_CHUNK_DAYS =
     Some ([(738886, 738891), (738892, 738897), (738898, 738899)], None) \<and>
   (\<exists>cs. date_chunks 738886 738899 MAX_CHUNK_DAYS = Some (cs, None) \<and> cs \<noteq> [] \<and>
     fst (hd cs) = 738886 \<and> snd (last cs) = 738899 \<and>
     contiguous cs \<and> non_overlapping cs \<and>
     list_all (chunk_within MAX_CHUNK_DAYS) cs)"
proof -
  have h: "valid_datetime 738886" "(738886::int) \<le> 738899" "(0::int) < MAX_CHUNK_DAYS"
    "738899 + 1 \<le> MAXYEAR_ORDINAL" "738899 + (MAX_CHUNK_DAYS - 1) \<le> MAXYEAR_ORDINAL"
    by (simp_all add: MAX_CHUNK_DAYS_def valid_datetime_def MINYEAR_ORDINAL_def
        MAXYEAR_ORDINAL_def)
  from date_chunks_cover[OF h] sample_chunks h show ?thesis by simp
qed

text \<open>
  Claim C7 has the Chunk Planner fail with a range error when the start date is after the end
  date. The planner has no such check: its loop condition is false at once, it yields
  nothing and raises nothing.
\<close>

theorem date_chunks_reversed_range_counterexample:
  "(738887::int) > 738886 \<and> date_chunks 738887 738886 MAX_CHUNK_DAYS = Some ([], None)"
  unfolding date_chunks_def by (simp add: date_chunks_from_past_end)

text \<open>
  Claim C7, amended. For a start date after the end date the Chunk Planner yields the empty
  sequence and raises nothing; the range error is raised by the Ingestion Orchestrator, which
  compares the two parsed dates before it plans any chunk and raises \<open>ValueError\<close>.
\<close>

theorem reversed_range_raised_by_orchestrator:
  "start > end_dt \<Longrightarrow>
   date_chunks start end_dt days = Some ([], None) \<and>
   (strptime start_date = Some start \<and> strptime end_date = Some end_dt \<longrightarrow>
      fetch_generation_data strptime net start_date end_date = Some (Inl (ValueError StartAfterEnd)))"
  unfolding date_chunks_def
  by (simp add: date_chunks_from_past_end fetch_generation_data_def fetch_generation_run_def)

theorem reversed_range_raised_by_orchestrator_witness:
  "(738887::int) > 738886 \<and>
   date_chunks 738887 738886 MAX_CHUNK_DAYS = Some ([], None) \<and>
   sample_strptime ''2024-01-02'' = Some 738887 \<and> sample_strptime ''2024-01-01'' = Some 738886 \<and>
   fetch_generation_data sample_strptime net_no_records ''2024-01-02'' ''2024-01-01'' =
     Some (Inl (ValueError StartAfterEnd))"
  using reversed_range_raised_by_orchestrator[of 738886 738887 MAX_CHUNK_DAYS
     sample_strptime "''2024-01-02''" "''2024-01-01''" net_no_records]
  by (simp add: sample_strptime_def)

section \<open>The Chunk Fetcher: range limit and empty payloads\<close>

lemma fetch_attempt_too_large:
  "7 < to_dt - from_dt + 1 \<Longrightarrow>
   fetch_attempt net sent from_dt to_dt =
     (Inl (ValueError (DateRangeExceeds7Days (to_dt - from_dt + 1))), sent)"
  by (simp add: fetch_attempt_def Let_def)

lemma fetch_attempt_in_range:
  "to_dt - from_dt + 1 \<le> 7 \<Longrightarrow>
   fetch_attempt net sent from_dt to_dt =
     (case net sent (from_dt, to_dt) of
        HttpRequestError \<Rightarrow> (Inl RequestError, sent + 1)
      | HttpStatusError \<Rightarrow> (Inl HTTPStatusError, sent + 1)
      | HttpBadPayload \<Rightarrow> (Inl OtherException, sent + 1)
      | HttpPayload raw_data \<Rightarrow>
          (Inr (map transform_record (case raw_data of None \<Rightarrow> [] | Some rs \<Rightarrow> rs)), sent + 1))"
  by (simp add: fetch_attempt_def Let_def)

lemma retry_loop_no_value_error:
  "to_dt - from_dt + 1 \<le> 7 \<Longrightarrow> fst (retry_loop k net sent from_dt to_dt) \<noteq> Inl (ValueError d)"
proof (induction k arbitrary: sent)
  case 0
  show ?case by simp
next
  case (Suc k)
  show ?case
  proof (cases "net sent (from_dt, to_dt)")
    case HttpRequestError
    then show ?thesis using Suc by (simp add: fetch_attempt_in_range retryable_def)
  next
    case HttpStatusError
    then show ?thesis using Suc by (simp add: fetch_attempt_in_range retryable_def)
  next
    case HttpBadPayload
    then show ?thesis using Suc by (simp add: fetch_attempt_in_range retryable_def)
  next
    case (HttpPayload raw)
    then show ?thesis using Suc by (simp add: fetch_attempt_in_range retryable_def)
  qed
qed

text \<open>
  Claim C5. A range of more than seven days, counted inclusively, makes the Chunk Fetcher
  raise its range error (\<open>ValueError\<close>, "Date range exceeds 7 days") with no request sent
  and no retry, whatever the upstream service would answer; a range of at most seven days
  never raises a \<open>ValueError\<close> of the fetch module.
\<close>

theorem fetch_single_chunk_range_limit:
  "(7 < to_dt - from_dt + 1 \<longrightarrow>
      fetch_single_chunk net sent from_dt to_dt =
        (Inl (ValueError (DateRangeExceeds7Days (to_dt - from_dt + 1))), sent)) \<and>
   (to_dt - from_dt + 1 \<le> 7 \<longrightarrow>
      (\<forall>d. fst (fetch_single_chunk net sent from_dt to_dt) \<noteq> Inl (ValueError d)))"
  by (simp add: fetch_single_chunk_def fetch_attempt_too_large retryable_def
      retry_loop_no_value_error del: retry_loop.simps(2))
   (simp add: fetch_attempt_too_large retryable_def)

theorem fetch_single_chunk_range_limit_witness:
  "fetch_single_chunk (\<lambda>n r. HttpPayload (Some [])) 0 738886 738893 =
     (Inl (ValueError (DateRangeExceeds7Days 8)), 0) \<and>
   (\<forall>d. fst (fetch_single_chunk (\<lambda>n r. HttpPayload (Some [])) 0 738886 738892)
       \<noteq> Inl (ValueError d))"
  using fetch_single_chunk_range_limit[of 738893 738886 "\<lambda>n r. HttpPayload (Some [])" 0]
    fetch_single_chunk_range_limit[of 738892 738886 "\<lambda>n r. HttpPayload (Some [])" 0]
  by simp

lemma fetch_single_chunk_payload:
  "to_dt - from_dt + 1 \<le> 7 \<Longrightarrow> net sent (from_dt, to_dt) = HttpPayload raw_data \<Longrightarrow>
   fetch_single_chunk net sent from_dt to_dt =
     (Inr (map transform_record (case raw_data of None \<Rightarrow> [] | Some rs \<Rightarrow> rs)), sent + 1)"
  by (simp add: fetch_single_chunk_def fetch_attempt_in_range)

text \<open>
  Claim C9. An upstream payload with no records (an empty \<open>data\<close> array, or none) makes the
  chunk fetch return the empty list after one request; the Deduplicator maps the empty list
  to the empty list; the processed quality gate answers the empty list with the error status
  and the message "No data to validate" in place of a report.
\<close>

theorem empty_input_by_stage:
  "(to_dt - from_dt + 1 \<le> 7 \<and>
      (net sent (from_dt, to_dt) = HttpPayload (Some []) \<or>
       net sent (from_dt, to_dt) = HttpPayload None) \<longrightarrow>
        fetch_single_chunk net sent from_dt to_dt = (Inr [], sent + 1)) \<and>
   deduplicate_data [] = Inr [] \<and>
   validate_processed_data average [] = Inr (ValidationError ''No data to validate'')"
  by (auto simp: fetch_single_chunk_payload deduplicate_data_def validate_processed_data_def)

theorem empty_input_by_stage_witness:
  "fetch_single_chunk (\<lambda>n r. HttpPayload (Some [])) 0 738886 738891 = (Inr [], 1) \<and>
   deduplicate_data [] = Inr [] \<and>
   validate_processed_data exact_mean [] = Inr (ValidationError ''No data to validate'')"
  using empty_input_by_stage[of 738891 738886 "\<lambda>n r. HttpPayload (Some [])" 0 exact_mean]
  by simp

section \<open>The Ingestion Orchestrator and partial failure\<close>

lemma chunk_outcomes_length: "length (chunk_outcomes net sent chunks) = length chunks"
  by (induction net sent chunks rule: chunk_outcomes.induct) (auto split: prod.splits)

lemma fetch_loop_state:
  "all_data (fetch_loop net ex chunks num st) =
     all_data st @ concat (map records_of (chunk_outcomes net (requests_sent st) chunks)) \<and>
   failed_chunks (fetch_loop net ex chunks num st) =
     failed_chunks st + length (filter isl (chunk_outcomes net (requests_sent st) chunks)) \<and>
   successful_chunks (fetch_loop net ex chunks num st) =
     successful_chunks st +
       length (filter (\<lambda>r. records_of r \<noteq> []) (chunk_outcomes net (requests_sent st) chunks))"
proof (induction chunks arbitrary: num st)
  case Nil
  show ?case by simp
next
  case (Cons c chunks)
  obtain from_dt to_dt where c: "c = (from_dt, to_dt)" by (cases c)
  obtain res sent' where f: "fetch_single_chunk net (requests_sent st) from_dt to_dt = (res, sent')"
    by (cases "fetch_single_chunk net (requests_sent st) from_dt to_dt")
  show ?case
  proof (cases res)
    case (Inl e)
    let ?st' = "st\<lparr>failed_chunks := failed_chunks st + 1, requests_sent := sent'\<rparr>"
    have "fetch_loop net ex (c # chunks) num st = fetch_loop net ex chunks (num + 1) ?st'"
      using c f Inl by simp
    moreover have "chunk_outcomes net (requests_sent st) (c # chunks) =
        Inl e # chunk_outcomes net sent' chunks"
      using c f Inl by simp
    ultimately show ?thesis using Cons.IH[of "num + 1" ?st']
      by (simp add: records_of_def)
  next
    case (Inr data)
    define st1 where "st1 = (if data \<noteq> []
         then st\<lparr>all_data := all_data st @ data, successful_chunks := successful_chunks st + 1\<rparr>
         else st)"
    define st2 where "st2 = (if num < ex then st1\<lparr>sleeps := sleeps st1 + 1\<rparr> else st1)"
    let ?st' = "st2\<lparr>requests_sent := sent'\<rparr>"
    have "fetch_loop net ex (c # chunks) num st = fetch_loop net ex chunks (num + 1) ?st'"
      using c f Inr by (simp add: st1_def st2_def Let_def)
    moreover have "chunk_outcomes net (requests_sent st) (c # chunks) =
        Inr data # chunk_outcomes net sent' chunks"
      using c f Inr by simp
    moreover have "all_data ?st' = all_data st @ data" "failed_chunks ?st' = failed_chunks st"
      "successful_chunks ?st' = successful_chunks st + (if data \<noteq> [] then 1 else 0)"
      "requests_sent ?st' = sent'"
      by (simp_all add: st1_def st2_def)
    ultimately show ?thesis using Cons.IH[of "num + 1" ?st']
      by (simp add: records_of_def)
  qed
qed

lemma length_concat_records:
  "length (concat (map records_of rs)) = sum_list (map (\<lambda>r. length (records_of r)) rs)"
  by (induction rs) simp_all

lemma fetch_generation_summary:
  assumes "strptime start_date = Some start" and "strptime end_date = Some end_dt"
    and "start \<le> end_dt" and "date_chunks start end_dt MAX_CHUNK_DAYS = Some (chunks, None)"
  shows "fetch_generation_data strptime net start_date end_date =
       Some (Inr (concat (map records_of (chunk_outcomes net 0 chunks))))"
    and "map_option (map_sum id failed_chunks)
       (fetch_generation_run strptime net start_date end_date) =
       Some (Inr (length (filter isl (chunk_outcomes net 0 chunks))))"
    and "map_option (map_sum id successful_chunks)
       (fetch_generation_run strptime net start_date end_date) =
       Some (Inr (length (filter (\<lambda>r. records_of r \<noteq> []) (chunk_outcomes net 0 chunks))))"
proof -
  let ?st = "fetch_loop net ((end_dt - start + 1 + MAX_CHUNK_DAYS - 1) div MAX_CHUNK_DAYS)
         chunks 1 \<lparr> all_data = [], successful_chunks = 0, failed_chunks = 0,
           requests_sent = 0, sleeps = 0 \<rparr>"
  have run: "fetch_generation_run strptime net start_date end_date = Some (Inr ?st)"
    using assms by (simp add: fetch_generation_run_def Let_def)
  have a: "all_data ?st = concat (map records_of (chunk_outcomes net 0 chunks))"
    and f: "failed_chunks ?st = length (filter isl (chunk_outcomes net 0 chunks))"
    and s: "successful_chunks ?st =
       length (filter (\<lambda>r. records_of r \<noteq> []) (chunk_outcomes net 0 chunks))"
    using fetch_loop_state[of net _ chunks 1
        "\<lparr> all_data = [], successful_chunks = 0, failed_chunks = 0, requests_sent = 0, sleeps = 0 \<rparr>"]
    by simp_all
  show "fetch_generation_data strptime net start_date end_date =
       Some (Inr (concat (map records_of (chunk_outcomes net 0 chunks))))"
    unfolding fetch_generation_data_def run using a by simp
  show "map_option (map_sum id failed_chunks)
       (fetch_generation_run strptime net start_date end_date) =
       Some (Inr (length (filter isl (chunk_outcomes net 0 chunks))))"
    unfolding run using f by simp
  show "map_option (map_sum id successful_chunks)
       (fetch_generation_run strptime net start_date end_date) =
       Some (Inr (length (filter (\<lambda>r. records_of r \<noteq> []) (chunk_outcomes net 0 chunks))))"
    unfolding run using s by simp
qed

lemma fetch_generation_raises:
  assumes "strptime start_date = Some start" and "strptime end_date = Some end_dt"
    and "start \<le> end_dt" and "date_chunks start end_dt MAX_CHUNK_DAYS = Some (chunks, Some e)"
  shows "fetch_generation_data strptime net start_date end_date = Some (Inl e)"
  using assms by (simp add: fetch_generation_data_def fetch_generation_run_def Let_def)

lemma planned_in_calendar:
  assumes "valid_datetime start" and "start \<le> end_dt"
    and "end_dt + (MAX_CHUNK_DAYS - 1) \<le> MAXYEAR_ORDINAL"
  shows "\<exists>chunks. date_chunks start end_dt MAX_CHUNK_DAYS = Some (chunks, None)"
proof -
  have d: "0 < MAX_CHUNK_DAYS" by (simp add: MAX_CHUNK_DAYS_def)
  from assms(1) have one: "1 \<le> start" by (simp add: valid_datetime_def MINYEAR_ORDINAL_def)
  from assms(3) have cal: "end_dt + (MAX_CHUNK_DAYS - 1) \<le> 3652059" "end_dt + 1 \<le> 3652059"
    by (simp_all add: MAXYEAR_ORDINAL_def MAX_CHUNK_DAYS_def)
  from date_chunks_from_spec[OF d one assms(2) cal, of "[]"] show ?thesis
    unfolding date_chunks_def by auto
qed

lemma sample_outcomes:
  "chunk_outcomes net_second_chunk_down 0 [(738886, 738891), (738892, 738897), (738898, 738899)] =
     [Inr [transform_record sample_upstream_record], Inl RetryError,
      Inr [transform_record sample_upstream_record]]"
  by (simp add: fetch_single_chunk_def fetch_attempt_def net_second_chunk_down_def retryable_def)

lemma sample_run_facts:
  "sample_strptime ''2024-01-01'' = Some 738886" "sample_strptime ''2024-01-14'' = Some 738899"
  "valid_datetime 738886" "(738886::int) \<le> 738899"
  "738899 + (MAX_CHUNK_DAYS - 1) \<le> MAXYEAR_ORDINAL"
  by (simp_all add: sample_strptime_def valid_datetime_def MINYEAR_ORDINAL_def
      MAXYEAR_ORDINAL_def MAX_CHUNK_DAYS_def)

lemma last_days_outcomes:
  "chunk_outcomes net_first_chunk_down 0 [(3652048, 3652053), (3652054, 3652059)] =
     [Inl RetryError, Inr [transform_record sample_upstream_record]]"
  by (simp add: fetch_single_chunk_def fetch_attempt_def net_first_chunk_down_def retryable_def)

text \<open>
  Claim C4 has every ingestion run go on after a failed chunk and return the records of the
  chunks that did not raise. The run from 9999-12-20 to 9999-12-31 plans two chunks; the
  fetch of the first raises and is counted, the second brings one record, and then the
  planner raises \<open>OverflowError\<close> on the day after 9999-12-31: the exception leaves the
  function, which returns nothing.
\<close>

theorem run_to_last_day_counterexample:
  "sample_strptime ''9999-12-20'' = Some 3652048 \<and>
   sample_strptime ''9999-12-31'' = Some 3652059 \<and>
   date_chunks 3652048 3652059 MAX_CHUNK_DAYS =
     Some ([(3652048, 3652053), (3652054, 3652059)], Some OverflowError) \<and>
   chunk_outcomes net_first_chunk_down 0 [(3652048, 3652053), (3652054, 3652059)] =
     [Inl RetryError, Inr [transform_record sample_upstream_record]] \<and>
   fetch_generation_data sample_strptime net_first_chunk_down ''9999-12-20'' ''9999-12-31'' =
     Some (Inl OverflowError)"
proof -
  have h: "sample_strptime ''9999-12-20'' = Some 3652048"
    "sample_strptime ''9999-12-31'' = Some 3652059" "(3652048::int) \<le> 3652059"
    by (simp_all add: sample_strptime_def)
  from fetch_generation_raises[of sample_strptime "''9999-12-20''" 3652048 "''9999-12-31''" 3652059
      "[(3652048, 3652053), (3652054, 3652059)]" OverflowError net_first_chunk_down,
      OF h plan_to_last_day]
  show ?thesis using h(1,2) plan_to_last_day last_days_outcomes by simp
qed

text \<open>
  Claim C4, amended. For two date strings that parse, the start not after the end and the
  end not after 9999-12-26 (so that the planner's dates stay in the calendar), the Ingestion
  Orchestrator returns whatever the upstream service does: a chunk whose fetch raises adds
  one to the failed-chunk counter and the loop goes on with the next chunk. The counter
  ends at the number of chunks that raised, the returned list is the concatenation, in
  planned order, of the records of the chunks that did not raise, and its length is the sum
  of their record counts.
\<close>

theorem partial_failure_tolerated:
  assumes "strptime start_date = Some start" and "strptime end_date = Some end_dt"
    and "valid_datetime start" and "start \<le> end_dt"
    and "end_dt + (MAX_CHUNK_DAYS - 1) \<le> MAXYEAR_ORDINAL"
  shows "\<exists>chunks st.
     date_chunks start end_dt MAX_CHUNK_DAYS = Some (chunks, None) \<and>
     fetch_generation_run strptime net start_date end_date = Some (Inr st) \<and>
     fetch_generation_data strptime net start_date end_date = Some (Inr (all_data st)) \<and>
     length (chunk_outcomes net 0 chunks) = length chunks \<and>
     failed_chunks st = length (filter isl (chunk_outcomes net 0 chunks)) \<and>
     all_data st = concat (map records_of (chunk_outcomes net 0 chunks)) \<and>
     length (all_data st) =
       sum_list (map (\<lambda>r. length (records_of r)) (chunk_outcomes net 0 chunks))"
proof -
  from planned_in_calendar[OF assms(3,4,5)] obtain chunks where
    ch: "date_chunks start end_dt MAX_CHUNK_DAYS = Some (chunks, None)" by blast
  let ?st = "fetch_loop net ((end_dt - start + 1 + MAX_CHUNK_DAYS - 1) div MAX_CHUNK_DAYS)
         chunks 1 \<lparr> all_data = [], successful_chunks = 0, failed_chunks = 0,
           requests_sent = 0, sleeps = 0 \<rparr>"
  have run: "fetch_generation_run strptime net start_date end_date = Some (Inr ?st)"
    using assms(1,2,4) ch by (simp add: fetch_generation_run_def Let_def)
  have a: "all_data ?st = concat (map records_of (chunk_outcomes net 0 chunks))"
    and f: "failed_chunks ?st = length (filter isl (chunk_outcomes net 0 chunks))"
    using fetch_loop_state[of net _ chunks 1
        "\<lparr> all_data = [], successful_chunks = 0, failed_chunks = 0, requests_sent = 0, sleeps = 0 \<rparr>"]
    by simp_all
  have d: "fetch_generation_data strptime net start_date end_date = Some (Inr (all_data ?st))"
    using run by (simp add: fetch_generation_data_def)
  have l: "length (all_data ?st) =
       sum_list (map (\<lambda>r. length (records_of r)) (chunk_outcomes net 0 chunks))"
    unfolding a by (rule length_concat_records)
  from ch run d a f l chunk_outcomes_length[of net 0 chunks] show ?thesis by blast
qed

theorem partial_failure_tolerated_witness:
  "sample_strptime ''2024-01-01'' = Some 738886 \<and> sample_strptime ''2024-01-14'' = Some 738899 \<and>
   valid_datetime 738886 \<and> (738886::int) \<le> 738899 \<and>
   738899 + (MAX_CHUNK_DAYS - 1) \<le> MAXYEAR_ORDINAL \<and>
   chunk_outcomes net_second_chunk_down 0 [(738886, 738891), (738892, 738897), (738898, 738899)] =
     [Inr [transform_record sample_upstream_record], Inl RetryError,
      Inr [transform_record sample_upstream_record]] \<and>
   (\<exists>st.
     fetch_generation_run sample_strptime net_second_chunk_down ''2024-01-01'' ''2024-01-14'' =
       Some (Inr st) \<and>
     fetch_generation_data sample_strptime net_second_chunk_down ''2024-01-01'' ''2024-01-14'' =
       Some (Inr [transform_record sample_upstream_record,
                  transform_record sample_upstream_record]) \<and>
     failed_chunks st = 1 \<and> length (all_data st) = 2)"
proof -
  note h = sample_run_facts
  from partial_failure_tolerated[of sample_strptime "''2024-01-01''" 738886 "''2024-01-14''" 738899
      net_second_chunk_down, OF h]
  obtain chunks st where
    c: "date_chunks 738886 738899 MAX_CHUNK_DAYS = Some (chunks, None)"
    and r: "fetch_generation_run sample_strptime net_second_chunk_down ''2024-01-01'' ''2024-01-14'' =
       Some (Inr st)"
    and d: "fetch_generation_data sample_strptime net_second_chunk_down ''2024-01-01'' ''2024-01-14'' =
       Some (Inr (all_data st))"
    and f: "failed_chunks st = length (filter isl (chunk_outcomes net_second_chunk_down 0 chunks))"
    and a: "all_data st = concat (map records_of (chunk_outcomes net_second_chunk_down 0 chunks))"
    by blast
  from c sample_chunks have ch: "chunks = [(738886, 738891), (738892, 738897), (738898, 738899)]"
    by simp
  have f1: "failed_chunks st = 1" unfolding f ch sample_outcomes by simp
  have a1: "all_data st = [transform_record sample_upstream_record,
      transform_record sample_upstream_record]"
    unfolding a ch sample_outcomes by (simp add: records_of_def)
  from r d f1 a1 h sample_outcomes show ?thesis by simp
qed

lemma one_day_chunks: "date_chunks 738886 738886 MAX_CHUNK_DAYS = Some ([(738886, 738886)], None)"
  unfolding date_chunks_def MAX_CHUNK_DAYS_def
  by (simp add: date_chunks_from_step date_chunks_from_past_end)

lemma one_day_outcomes:
  "chunk_outcomes net_bad_payload 0 [(738886, 738886)] = [Inl OtherException]"
  "chunk_outcomes net_no_records 0 [(738886, 738886)] = [Inr []]"
  by (simp_all add: fetch_single_chunk_def fetch_attempt_def net_bad_payload_def
      net_no_records_def retryable_def)

text \<open>
  Claim C8 has the counts of successful and failed chunks in the return value. The function
  returns \<open>all_data\<close> alone: a run whose only chunk fails and a run whose only chunk is
  empty return the same value, with one failed chunk counted in the first and none in the
  second.
\<close>

theorem returned_value_hides_counts_counterexample:
  "fetch_generation_data sample_strptime net_bad_payload ''2024-01-01'' ''2024-01-01'' =
     Some (Inr []) \<and>
   fetch_generation_data sample_strptime net_no_records ''2024-01-01'' ''2024-01-01'' =
     Some (Inr []) \<and>
   map_option (map_sum id failed_chunks)
     (fetch_generation_run sample_strptime net_bad_payload ''2024-01-01'' ''2024-01-01'') =
     Some (Inr 1) \<and>
   map_option (map_sum id failed_chunks)
     (fetch_generation_run sample_strptime net_no_records ''2024-01-01'' ''2024-01-01'') =
     Some (Inr 0)"
proof -
  have h: "sample_strptime ''2024-01-01'' = Some 738886" "(738886::int) \<le> 738886"
    by (simp_all add: sample_strptime_def)
  note b = fetch_generation_summary[of sample_strptime "''2024-01-01''" 738886 "''2024-01-01''" 738886
      "[(738886, 738886)]" net_bad_payload, OF h(1) h(1) h(2) one_day_chunks]
  note e = fetch_generation_summary[of sample_strptime "''2024-01-01''" 738886 "''2024-01-01''" 738886
      "[(738886, 738886)]" net_no_records, OF h(1) h(1) h(2) one_day_chunks]
  show ?thesis
    by (simp only: b(1,2) e(1,2) one_day_outcomes) (simp add: records_of_def)
qed

text \<open>
  Claim C8, amended. For every valid run with an end date not after 9999-12-26 the return
  value is the concatenation, in planned order, of the records of the chunks that did not
  raise; the counts of successful chunks (those with at least one record) and of failed
  chunks are kept during the run and logged, and are not part of the return value.
\<close>

theorem returned_value_is_records_only:
  assumes "strptime start_date = Some start" and "strptime end_date = Some end_dt"
    and "valid_datetime start" and "start \<le> end_dt"
    and "end_dt + (MAX_CHUNK_DAYS - 1) \<le> MAXYEAR_ORDINAL"
  shows "\<exists>chunks st.
     date_chunks start end_dt MAX_CHUNK_DAYS = Some (chunks, None) \<and>
     fetch_generation_run strptime net start_date end_date = Some (Inr st) \<and>
     fetch_generation_data strptime net start_date end_date =
       Some (Inr (concat (map records_of (chunk_outcomes net 0 chunks)))) \<and>
     successful_chunks st =
       length (filter (\<lambda>r. records_of r \<noteq> []) (chunk_outcomes net 0 chunks)) \<and>
     failed_chunks st = length (filter isl (chunk_outcomes net 0 chunks))"
proof -
  from planned_in_calendar[OF assms(3,4,5)] obtain chunks where
    ch: "date_chunks start end_dt MAX_CHUNK_DAYS = Some (chunks, None)" by blast
  let ?st = "fetch_loop net ((end_dt - start + 1 + MAX_CHUNK_DAYS - 1) div MAX_CHUNK_DAYS)
         chunks 1 \<lparr> all_data = [], successful_chunks = 0, failed_chunks = 0,
           requests_sent = 0, sleeps = 0 \<rparr>"
  have run: "fetch_generation_run strptime net start_date end_date = Some (Inr ?st)"
    using assms(1,2,4) ch by (simp add: fetch_generation_run_def Let_def)
  have a: "all_data ?st = concat (map records_of (chunk_outcomes net 0 chunks))"
    and f: "failed_chunks ?st = length (filter isl (chunk_outcomes net 0 chunks))"
    and s: "successful_chunks ?st =
       length (filter (\<lambda>r. records_of r \<noteq> []) (chunk_outcomes net 0 chunks))"
    using fetch_loop_state[of net _ chunks 1
        "\<lparr> all_data = [], successful_chunks = 0, failed_chunks = 0, requests_sent = 0, sleeps = 0 \<rparr>"]
    by simp_all
  have d: "fetch_generation_data strptime net start_date end_date =
       Some (Inr (concat (map records_of (chunk_outcomes net 0 chunks))))"
    using run a by (simp add: fetch_generation_data_def)
  from ch run d s f show ?thesis by blast
qed

theorem returned_value_is_records_only_witness:
  "sample_strptime ''2024-01-01'' = Some 738886 \<and> sample_strptime ''2024-01-14'' = Some 738899 \<and>
   valid_datetime 738886 \<and> (738886::int) \<le> 738899 \<and>
   738899 + (MAX_CHUNK_DAYS - 1) \<le> MAXYEAR_ORDINAL \<and>
   (\<exists>st.
     fetch_generation_run sample_strptime net_second_chunk_down ''2024-01-01'' ''2024-01-14'' =
       Some (Inr st) \<and>
     fetch_generation_data sample_strptime net_second_chunk_down ''2024-01-01'' ''2024-01-14'' =
       Some (Inr [transform_record sample_upstream_record,
                  transform_record sample_upstream_record]) \<and>
     successful_chunks st = 2 \<and> failed_chunks st = 1)"
proof -
  note h = sample_run_facts
  from returned_value_is_records_only[of sample_strptime "''2024-01-01''" 738886 "''2024-01-14''"
      738899 net_second_chunk_down, OF h]
  obtain chunks st where
    c: "date_chunks 738886 738899 MAX_CHUNK_DAYS = Some (chunks, None)"
    and r: "fetch_generation_run sample_strptime net_second_chunk_down ''2024-01-01'' ''2024-01-14'' =
       Some (Inr st)"
    and d: "fetch_generation_data sample_strptime net_second_chunk_down ''2024-01-01'' ''2024-01-14'' =
       Some (Inr (concat (map records_of (chunk_outcomes net_second_chunk_down 0 chunks))))"
    and s: "successful_chunks st =
       length (filter (\<lambda>r. records_of r \<noteq> []) (chunk_outcomes net_second_chunk_down 0 chunks))"
    and f: "failed_chunks st = length (filter isl (chunk_outcomes net_second_chunk_down 0 chunks))"
    by blast
  from c sample_chunks have ch: "chunks = [(738886, 738891), (738892, 738897), (738898, 738899)]"
    by simp
  have f1: "failed_chunks st = 1" unfolding f ch sample_outcomes by simp
  have s1: "successful_chunks st = 2" unfolding s ch sample_outcomes by (simp add: records_of_def)
  have d1: "fetch_generation_data sample_strptime net_second_chunk_down ''2024-01-01'' ''2024-01-14'' =
       Some (Inr [transform_record sample_upstream_record,
                  transform_record sample_upstream_record])"
    unfolding d ch sample_outcomes by (simp add: records_of_def)
  from r d1 f1 s1 h show ?thesis by simp
qed

section \<open>The Field Normalizer widens every record to the schema\<close>

lemma map_of_dict_set: "map_of (dict_set d k v) = (map_of d)(k \<mapsto> v)"
  by (simp add: dict_set_def update_conv')

lemma fill_expected_map:
  "map_of (fst (fill_expected rcd fs (pr, ms))) k =
     (if k \<in> set fs then Some (dict_get rcd k) else map_of pr k)"
proof (induction fs arbitrary: pr ms)
  case Nil
  show ?case by simp
next
  case (Cons f fs)
  show ?case
  proof (cases "map_of rcd f")
    case None
    then show ?thesis using Cons[of "dict_set pr f PNone" "bump ms f"]
      by (auto simp: map_of_dict_set dict_get_def)
  next
    case (Some v)
    show ?thesis
    proof (cases "v = PNone")
      case True
      with Some show ?thesis using Cons[of "dict_set pr f PNone" "bump ms f"]
        by (auto simp: map_of_dict_set dict_get_def)
    next
      case False
      with Some show ?thesis using Cons[of "dict_set pr f v" ms]
        by (auto simp: map_of_dict_set dict_get_def)
    qed
  qed
qed

lemma fill_expected_fst:
  "fst (fill_expected rcd fs (pr, ms)) = fst (fill_expected rcd fs (pr, ms'))"
proof (induction fs arbitrary: pr ms ms')
  case Nil
  show ?case by simp
next
  case (Cons f fs)
  show ?case
    by (cases "map_of rcd f") (auto intro: Cons)
qed

lemma copy_extra_map:
  "distinct (map fst items) \<Longrightarrow>
   map_of (copy_extra items pr) k =
     (if k \<notin> set expected_fields \<and> k \<in> fst ` set items then map_of items k else map_of pr k)"
proof (induction items arbitrary: pr)
  case Nil
  show ?case by simp
next
  case (Cons it items)
  obtain f v where it: "it = (f, v)" by (cases it)
  from Cons.prems it have d: "distinct (map fst items)" and nf: "f \<notin> fst ` set items" by auto
  show ?case
  proof (cases "f \<in> set expected_fields")
    case True
    then show ?thesis using Cons.IH[OF d, of pr] it nf by auto
  next
    case False
    then show ?thesis using Cons.IH[OF d, of "dict_set pr f v"] it nf
      by (auto simp: map_of_dict_set)
  qed
qed

lemma process_records_map:
  "fst (process_records data (acc, ms)) = acc @ map normalize_record data"
proof (induction data arbitrary: acc ms)
  case Nil
  show ?case by simp
next
  case (Cons r data)
  obtain pr ms' where f: "fill_expected r expected_fields ([], ms) = (pr, ms')"
    by (cases "fill_expected r expected_fields ([], ms)")
  have "pr = fst (fill_expected r expected_fields ([], []))"
    using f fill_expected_fst[of r expected_fields "[]" ms "[]"] by simp
  then show ?case using f Cons[of "acc @ [copy_extra r pr]" ms']
    by (simp add: normalize_record_def)
qed

lemma handle_missing_fields_map: "handle_missing_fields data = map normalize_record data"
  by (simp add: handle_missing_fields_def process_records_map)

lemma normalize_record_map:
  "distinct (map fst r) \<Longrightarrow>
   map_of (normalize_record r) k =
     (if k \<in> set expected_fields then Some (dict_get r k) else map_of r k)"
proof -
  assume d: "distinct (map fst r)"
  have n: "k \<notin> fst ` set r \<Longrightarrow> map_of r k = None" by (simp add: map_of_eq_None_iff)
  show ?thesis
    unfolding normalize_record_def copy_extra_map[OF d] fill_expected_map
    using n by auto
qed

lemma copy_extra_expected:
  "k \<in> set expected_fields \<Longrightarrow> map_of (copy_extra items pr) k = map_of pr k"
proof (induction items arbitrary: pr)
  case Nil
  show ?case by simp
next
  case (Cons it items)
  obtain f v where it: "it = (f, v)" by (cases it)
  show ?case
  proof (cases "f \<in> set expected_fields")
    case True
    then show ?thesis using Cons.IH[OF Cons.prems, of pr] it by simp
  next
    case False
    with Cons.prems have "f \<noteq> k" by auto
    then show ?thesis using Cons.IH[OF Cons.prems, of "dict_set pr f v"] it False
      by (simp add: map_of_dict_set)
  qed
qed

lemma normalize_record_expected:
  "k \<in> set expected_fields \<Longrightarrow> map_of (normalize_record r) k = Some (dict_get r k)"
  by (simp add: normalize_record_def copy_extra_expected fill_expected_map)

text \<open>
  Claim C6. The Field Normalizer maps the empty list to the empty list and returns one record
  per input record. In each output record every one of the nine expected keys is present,
  with the source value, or with \<open>None\<close> when the source has no such key or has \<open>None\<close>
  there; every key outside the expected set is present exactly when the input record has it,
  with the same value. The input records are dictionaries: their keys are distinct.
\<close>

theorem handle_missing_fields_schema:
  "handle_missing_fields [] = [] \<and>
   length (handle_missing_fields data) = length data \<and>
   (\<forall>i k. i < length data \<and> k \<in> set expected_fields \<longrightarrow>
      map_of (handle_missing_fields data ! i) k = Some (dict_get (data ! i) k)) \<and>
   (\<forall>i k. i < length data \<and> k \<notin> set expected_fields \<and> distinct (map fst (data ! i)) \<longrightarrow>
      map_of (handle_missing_fields data ! i) k = map_of (data ! i) k)"
  by (simp add: handle_missing_fields_map normalize_record_map normalize_record_expected)

theorem handle_missing_fields_schema_witness:
  "length expected_fields = 9 \<and> distinct (map fst sample_raw_record) \<and>
   handle_missing_fields [] = [] \<and>
   length (handle_missing_fields [sample_raw_record]) = 1 \<and>
   map_of (handle_missing_fields [sample_raw_record] ! 0) ''psrType'' = Some (PStr ''Solar'') \<and>
   map_of (handle_missing_fields [sample_raw_record] ! 0) ''quantity'' = Some PNone \<and>
   map_of (handle_missing_fields [sample_raw_record] ! 0) ''publishTime'' = Some PNone \<and>
   map_of (handle_missing_fields [sample_raw_record] ! 0) ''extraField'' =
     Some (PStr ''extra_value'') \<and>
   map_of (handle_missing_fields [sample_raw_record] ! 0) ''otherField'' = None"
proof -
  note t = handle_missing_fields_schema[of "[sample_raw_record]"]
  from t have e: "\<And>k. k \<in> set expected_fields \<Longrightarrow>
      map_of (handle_missing_fields [sample_raw_record] ! 0) k = Some (dict_get sample_raw_record k)"
    by simp
  from t have x: "\<And>k. k \<notin> set expected_fields \<Longrightarrow> distinct (map fst sample_raw_record) \<Longrightarrow>
      map_of (handle_missing_fields [sample_raw_record] ! 0) k = map_of sample_raw_record k"
    by simp
  have d: "distinct (map fst sample_raw_record)" by (simp add: sample_raw_record_def)
  have "map_of (handle_missing_fields [sample_raw_record] ! 0) ''psrType'' = Some (PStr ''Solar'')"
    using e[of "''psrType''"] by (simp add: expected_fields_def sample_raw_record_def dict_get_def)
  moreover have "map_of (handle_missing_fields [sample_raw_record] ! 0) ''quantity'' = Some PNone"
    using e[of "''quantity''"] by (simp add: expected_fields_def sample_raw_record_def dict_get_def)
  moreover have "map_of (handle_missing_fields [sample_raw_record] ! 0) ''publishTime'' = Some PNone"
    using e[of "''publishTime''"] by (simp add: expected_fields_def sample_raw_record_def dict_get_def)
  moreover have "map_of (handle_missing_fields [sample_raw_record] ! 0) ''extraField'' =
      Some (PStr ''extra_value'')"
    using x[of "''extraField''", OF _ d] by (simp add: expected_fields_def sample_raw_record_def)
  moreover have "map_of (handle_missing_fields [sample_raw_record] ! 0) ''otherField'' = None"
    using x[of "''otherField''", OF _ d] by (simp add: expected_fields_def sample_raw_record_def)
  moreover have "length expected_fields = 9" by (simp add: expected_fields_def)
  ultimately show ?thesis using t d by simp
qed

section \<open>The processed quality gate and its score\<close>

subsection \<open>The error of one rounding\<close>

lemma round_half_even_error: "\<bar>of_int (round_half_even x) - x\<bar> \<le> 1 / 2"
proof -
  have a: "of_int \<lfloor>x\<rfloor> \<le> x" "x < of_int \<lfloor>x\<rfloor> + 1" by linarith+
  show ?thesis using a by (auto simp: round_half_even_def Let_def)
qed

lemma round_half_even_unique:
  assumes "\<bar>x - of_int m\<bar> < 1 / 2"
  shows "round_half_even x = m"
proof (cases "of_int m \<le> x")
  case True
  with assms have "\<lfloor>x\<rfloor> = m" by (intro floor_unique) auto
  with assms True show ?thesis by (auto simp: round_half_even_def Let_def)
next
  case False
  with assms have "\<lfloor>x\<rfloor> = m - 1" by (intro floor_unique) auto
  with assms False show ?thesis by (auto simp: round_half_even_def Let_def)
qed

lemma round_half_even_nonneg: "0 \<le> x \<Longrightarrow> 0 \<le> round_half_even x"
  by (auto simp: round_half_even_def Let_def)

lemma ilog2_lower:
  assumes "x \<noteq> 0"
  shows "power_int 2 (ilog2 x) \<le> \<bar>x\<bar>"
proof -
  obtain p q where pq: "quotient_of \<bar>x\<bar> = (p, q)" by (cases "quotient_of \<bar>x\<bar>")
  from quotient_of_denom_pos[OF pq] have q: "0 < q" .
  from quotient_of_div[OF pq] have ax: "\<bar>x\<bar> = of_int p / of_int q" .
  from assms have "0 < \<bar>x\<bar>" by simp
  with ax q have p: "0 < p" by (simp add: zero_less_divide_iff)
  let ?e = "bitlen p - bitlen q"
  show ?thesis
  proof (cases "power_int 2 ?e \<le> \<bar>x\<bar>")
    case True
    then show ?thesis by (simp add: ilog2_def pq Let_def)
  next
    case False
    from bitlen_bounds[OF p] have pl: "2 ^ nat (bitlen p - 1) \<le> p" by simp
    from bitlen_bounds[OF q] have qu: "q < 2 ^ nat (bitlen q)" by simp
    have bp: "1 \<le> bitlen p"
    proof (rule ccontr)
      assume "\<not> 1 \<le> bitlen p"
      then have "nat (bitlen p) = 0" by simp
      with bitlen_bounds[OF p] p show False by simp
    qed
    have bq: "0 \<le> bitlen q" by (simp add: bitlen_def)
    have "power_int (2::rat) (?e - 1) = power_int 2 (bitlen p - 1) / power_int 2 (bitlen q)"
      using power_int_diff[of "2::rat" "bitlen p - 1" "bitlen q"] by (simp add: algebra_simps)
    also have "power_int (2::rat) (bitlen p - 1) = 2 ^ nat (bitlen p - 1)"
      using bp power_int_of_nat[of "2::rat" "nat (bitlen p - 1)"] by simp
    also have "power_int (2::rat) (bitlen q) = 2 ^ nat (bitlen q)"
      using bq power_int_of_nat[of "2::rat" "nat (bitlen q)"] by simp
    finally have e: "power_int (2::rat) (?e - 1) = 2 ^ nat (bitlen p - 1) / 2 ^ nat (bitlen q)" .
    have pl': "(2::rat) ^ nat (bitlen p - 1) \<le> of_int p"
      using pl by (metis of_int_le_iff of_int_numeral of_int_power)
    have qu': "of_int q \<le> (2::rat) ^ nat (bitlen q)"
      using qu by (metis less_imp_le of_int_le_iff of_int_numeral of_int_power)
    have "(2::rat) ^ nat (bitlen p - 1) / 2 ^ nat (bitlen q) \<le> of_int p / of_int q"
      using pl' qu' p q by (intro frac_le) simp_all
    with e ax have "power_int 2 (?e - 1) \<le> \<bar>x\<bar>" by simp
    with False show ?thesis by (simp add: ilog2_def pq Let_def)
  qed
qed

lemma ilog2_le:
  assumes "x \<noteq> 0" and "\<bar>x\<bar> \<le> power_int 2 k"
  shows "ilog2 x \<le> k"
proof (rule ccontr)
  assume "\<not> ilog2 x \<le> k"
  then have "k < ilog2 x" by simp
  then have "power_int (2::rat) k < power_int 2 (ilog2 x)"
    by (intro power_int_strict_increasing) simp_all
  with ilog2_lower[OF assms(1)] assms(2) show False by simp
qed

lemma fl_error:
  assumes "\<bar>x\<bar> \<le> power_int 2 k" and "- 1022 \<le> k"
  shows "\<bar>fl x - x\<bar> \<le> power_int 2 (k - 53)"
proof (cases "x = 0")
  case True
  then show ?thesis by (simp add: fl_def)
next
  case False
  let ?ex = "max (ilog2 x) (- 1022) - 52"
  let ?u = "power_int (2::rat) ?ex"
  have u: "0 < ?u" by simp
  have fx: "fl x = of_int (round_half_even (x / ?u)) * ?u"
    using False by (simp add: fl_def Let_def)
  have "fl x - x = (of_int (round_half_even (x / ?u)) - x / ?u) * ?u"
    using u by (simp add: fx field_simps)
  then have "\<bar>fl x - x\<bar> = \<bar>of_int (round_half_even (x / ?u)) - x / ?u\<bar> * ?u"
    using u by (simp add: abs_mult)
  also have "\<dots> \<le> (1 / 2) * ?u"
    using round_half_even_error[of "x / ?u"] u by (intro mult_right_mono) simp_all
  also have "\<dots> \<le> (1 / 2) * power_int 2 (k - 52)"
  proof -
    have "ilog2 x \<le> k" by (rule ilog2_le[OF False assms(1)])
    with assms(2) have "?ex \<le> k - 52" by simp
    then have "?u \<le> power_int 2 (k - 52)" by (intro power_int_increasing) simp_all
    then show ?thesis by simp
  qed
  also have "(1 / 2) * power_int (2::rat) (k - 52) = power_int 2 (k - 53)"
    using power_int_minus_mult[of "2::rat" "k - 52"] by (simp add: algebra_simps)
  finally show ?thesis .
qed

lemma fl_nonneg: "0 \<le> x \<Longrightarrow> 0 \<le> fl x"
  by (simp add: fl_def Let_def round_half_even_nonneg)

subsection \<open>Rounding a quotient that is not halfway\<close>

lemma frac_of_quotient:
  assumes "0 < b"
  shows "(of_int a / of_int b :: rat) - of_int \<lfloor>(of_int a / of_int b :: rat)\<rfloor> = of_int (a mod b) / of_int b"
proof -
  have f: "\<lfloor>(of_int a / of_int b :: rat)\<rfloor> = a div b" by (rule floor_divide_of_int_eq)
  have bpos: "(0::rat) < of_int b" using assms(1) by simp
  have e: "(of_int a :: rat) = of_int (a div b) * of_int b + of_int (a mod b)"
    by (metis mult.commute of_int_add of_int_mult mult_div_mod_eq)
  have "(of_int (a div b) * of_int b + of_int (a mod b)) / (of_int b :: rat)
      = of_int (a div b) + of_int (a mod b) / of_int b"
    using bpos by (simp add: add_divide_distrib)
  then have q: "(of_int a :: rat) / of_int b = of_int (a div b) + of_int (a mod b) / of_int b"
    by (simp only: e[symmetric])
  show ?thesis by (subst f) (simp only: q add_diff_cancel_left')
qed

lemma half_margin_low:
  assumes "0 < b" and "2 * t + 1 \<le> b"
  shows "of_int t / (of_int b :: rat) \<le> 1 / 2 - 1 / (2 * of_int b)"
    and "of_int t / (of_int b :: rat) < 1 / 2"
proof -
  have bpos: "(0::rat) < of_int b" using assms(1) by simp
  from assms(2) have "of_int (2 * t + 1) \<le> (of_int b :: rat)" by (simp only: of_int_le_iff)
  then have le: "2 * of_int t + 1 \<le> (of_int b :: rat)" by simp
  have "1 / 2 - 1 / (2 * of_int b) = (of_int b - 1) / (2 * of_int b :: rat)"
    using bpos by (simp add: field_simps)
  moreover have "of_int t / (of_int b :: rat) = (2 * of_int t) / (2 * of_int b)" by simp
  moreover have "(2 * of_int t) / (2 * of_int b :: rat) \<le> (of_int b - 1) / (2 * of_int b)"
    using le bpos by (intro divide_right_mono) simp_all
  ultimately show "of_int t / (of_int b :: rat) \<le> 1 / 2 - 1 / (2 * of_int b)" by simp
  moreover have "0 < 1 / (2 * of_int b :: rat)" using bpos by simp
  ultimately show "of_int t / (of_int b :: rat) < 1 / 2" by linarith
qed

lemma half_margin_high:
  assumes "0 < b" and "b + 1 \<le> 2 * t"
  shows "1 - of_int t / (of_int b :: rat) \<le> 1 / 2 - 1 / (2 * of_int b)"
    and "1 / 2 < of_int t / (of_int b :: rat)"
proof -
  have bpos: "(0::rat) < of_int b" using assms(1) by simp
  from assms(2) have "2 * (b - t) + 1 \<le> b" by simp
  from half_margin_low[OF assms(1) this]
  have a: "of_int (b - t) / (of_int b :: rat) \<le> 1 / 2 - 1 / (2 * of_int b)"
    and c: "of_int (b - t) / (of_int b :: rat) < 1 / 2" by simp_all
  have "of_int (b - t) / (of_int b :: rat) = of_int b / of_int b - of_int t / of_int b"
    by (simp add: diff_divide_distrib)
  also have "of_int b / (of_int b :: rat) = 1" using bpos by simp
  finally have d: "of_int (b - t) / (of_int b :: rat) = 1 - of_int t / of_int b" .
  from a d show "1 - of_int t / (of_int b :: rat) \<le> 1 / 2 - 1 / (2 * of_int b)" by simp
  from c d show "1 / 2 < of_int t / (of_int b :: rat)" by linarith
qed

lemma round_exact_margin:
  assumes "0 < b" and "\<not> halfway (of_int a / of_int b)"
  shows "\<bar>of_int a / of_int b - of_int (round_half_even (of_int a / of_int b))\<bar>
           \<le> (1 / 2 - 1 / (2 * of_int b) :: rat)"
proof -
  let ?q = "of_int a / of_int b :: rat"
  let ?t = "a mod b"
  let ?r = "of_int ?t / of_int b :: rat"
  have r: "?q - of_int \<lfloor>?q\<rfloor> = ?r" by (rule frac_of_quotient[OF assms(1)])
  have bpos: "(0::rat) < of_int b" using assms(1) by simp
  have t: "0 \<le> ?t" "?t < b" using assms(1) by simp_all
  have r0: "0 \<le> ?r" using t(1) bpos by simp
  from assms(2) have nh: "?r \<noteq> 1 / 2" unfolding halfway_def r .
  have ne: "2 * ?t \<noteq> b"
  proof
    assume "2 * ?t = b"
    then have "of_int (2 * ?t) = (of_int b :: rat)" by (simp only:)
    then have "2 * of_int ?t = (of_int b :: rat)" by simp
    then have "?r = of_int ?t / (2 * of_int ?t)" by (simp only:)
    also have "\<dots> = 1 / 2" using bpos \<open>2 * of_int ?t = (of_int b :: rat)\<close> by auto
    finally show False using nh by simp
  qed
  show ?thesis
  proof (cases "2 * ?t < b")
    case True
    then have "2 * ?t + 1 \<le> b" by simp
    note m = half_margin_low[OF assms(1) this]
    have "round_half_even ?q = \<lfloor>?q\<rfloor>"
      unfolding round_half_even_def Let_def r using m(2) by simp
    then have "?q - of_int (round_half_even ?q) = ?r" using r by (simp only:)
    then show ?thesis using m(1) r0 by simp
  next
    case False
    with ne have "b + 1 \<le> 2 * ?t" by simp
    note m = half_margin_high[OF assms(1) this]
    have "round_half_even ?q = \<lfloor>?q\<rfloor> + 1"
      unfolding round_half_even_def Let_def r using m(2) by simp
    then have "?q - of_int (round_half_even ?q) = ?q - of_int \<lfloor>?q\<rfloor> - 1" by simp
    then have "?q - of_int (round_half_even ?q) = ?r - 1" by (simp only: r)
    moreover have "?r \<le> 1"
    proof -
      from t(2) have "of_int ?t \<le> (of_int b :: rat)" by (simp only: of_int_le_iff less_imp_le)
      then show ?thesis using bpos by (simp add: divide_le_eq_1)
    qed
    ultimately show ?thesis using m(1) by simp
  qed
qed

subsection \<open>The score is close to the exact percentage\<close>

lemma fl_error_unit: "\<bar>x\<bar> \<le> 1 \<Longrightarrow> \<bar>fl x - x\<bar> \<le> 1 / 2 ^ 53"
  using fl_error[of x 0] by simp

lemma fl_error_128: "\<bar>x\<bar> \<le> 128 \<Longrightarrow> \<bar>fl x - x\<bar> \<le> 1 / 2 ^ 46"
  using fl_error[of x 7] by simp

lemma percentage_close:
  assumes "0 < n" and "m \<le> n"
  shows "\<bar>py_mul (py_truediv (int n - int m) (int n)) 100 - exact_percentage n m\<bar> \<le> 1 / 2 ^ 45"
    and "0 \<le> py_mul (py_truediv (int n - int m) (int n)) 100"
proof -
  let ?x = "of_int (int n - int m) / of_int (int n) :: rat"
  let ?x1 = "fl ?x"
  have x0: "0 \<le> ?x" using assms by simp
  have x1: "?x \<le> 1" using assms by simp
  have e1: "\<bar>?x1 - ?x\<bar> \<le> 1 / 2 ^ 53" using x0 x1 by (intro fl_error_unit) simp
  have n1: "0 \<le> ?x1" by (rule fl_nonneg[OF x0])
  have b1: "?x1 \<le> 1 + 1 / 2 ^ 53" using e1 x1 by linarith
  have "\<bar>?x1 * 100\<bar> \<le> 128" using n1 b1 by simp
  then have e2: "\<bar>fl (?x1 * 100) - ?x1 * 100\<bar> \<le> 1 / 2 ^ 46" by (rule fl_error_128)
  have p: "exact_percentage n m = 100 * ?x" by (simp add: exact_percentage_def)
  have "\<bar>fl (?x1 * 100) - 100 * ?x\<bar> \<le> 1 / 2 ^ 46 + 100 * (1 / 2 ^ 53)"
    using e1 e2 by linarith
  also have "\<dots> \<le> 1 / 2 ^ 45" by simp
  finally show "\<bar>py_mul (py_truediv (int n - int m) (int n)) 100 - exact_percentage n m\<bar> \<le> 1 / 2 ^ 45"
    by (simp add: py_mul_def py_truediv_def p)
  show "0 \<le> py_mul (py_truediv (int n - int m) (int n)) 100"
    unfolding py_mul_def py_truediv_def using n1 by (intro fl_nonneg) simp
qed

lemma score_two_decimals:
  assumes "0 < n" and "m \<le> n"
  shows "\<bar>of_int (round_half_even (py_mul (py_truediv (int n - int m) (int n)) 100 * 100)) / 100
            - exact_percentage n m\<bar> \<le> 1 / 200 + 1 / 2 ^ 45"
    and "0 \<le> round_half_even (py_mul (py_truediv (int n - int m) (int n)) 100 * 100)"
proof -
  let ?z = "py_mul (py_truediv (int n - int m) (int n)) 100"
  let ?d = "round_half_even (?z * 100)"
  note c = percentage_close[OF assms]
  have e: "\<bar>of_int ?d - ?z * 100\<bar> \<le> 1 / 2" by (rule round_half_even_error)
  have "\<bar>of_int ?d - 100 * exact_percentage n m\<bar> \<le> 1 / 2 + 100 * (1 / 2 ^ 45)"
    using e c(1) by linarith
  then have "\<bar>(of_int ?d - 100 * exact_percentage n m) / 100\<bar> \<le> (1 / 2 + 100 * (1 / 2 ^ 45)) / 100"
    by (simp only: abs_divide abs_numeral divide_right_mono zero_le_numeral)
  then show "\<bar>of_int ?d / 100 - exact_percentage n m\<bar> \<le> 1 / 200 + 1 / 2 ^ 45"
    by (simp add: diff_divide_distrib)
  show "0 \<le> ?d" using c(2) by (intro round_half_even_nonneg) simp
qed

lemma hundredfold_quotient:
  "0 < n \<Longrightarrow> m \<le> n \<Longrightarrow>
   100 * exact_percentage n m = of_int (10000 * (int n - int m)) / of_int (int n)"
  by (simp add: exact_percentage_def)

lemma score_exact_rounding:
  assumes "0 < n" and "m \<le> n" and "n < 2 ^ 30"
    and "\<not> halfway (100 * exact_percentage n m)"
  shows "round_half_even (py_mul (py_truediv (int n - int m) (int n)) 100 * 100) =
           round_half_even (100 * exact_percentage n m)"
proof -
  let ?z = "py_mul (py_truediv (int n - int m) (int n)) 100"
  let ?q = "100 * exact_percentage n m"
  let ?m0 = "round_half_even ?q"
  note c = percentage_close[OF assms(1,2)]
  have q: "?q = of_int (10000 * (int n - int m)) / of_int (int n)"
    by (rule hundredfold_quotient[OF assms(1,2)])
  have npos: "0 < int n" using assms(1) by simp
  from assms(4) have nh: "\<not> halfway (of_int (10000 * (int n - int m)) / of_int (int n))"
    unfolding q .
  from round_exact_margin[OF npos nh]
  have mg: "\<bar>?q - of_int ?m0\<bar> \<le> 1 / 2 - 1 / (2 * of_int (int n))"
    unfolding q .
  have "int n < 2 ^ 30" using assms(3) by (metis of_nat_less_iff of_nat_numeral of_nat_power)
  then have "of_int (int n) < (2 ^ 30 :: rat)"
    by (metis of_int_less_iff of_int_numeral of_int_power)
  then have small: "100 * (1 / 2 ^ 45) < 1 / (2 * of_int (int n) :: rat)"
    using npos by (simp add: field_simps)
  have "\<bar>?z * 100 - ?q\<bar> \<le> 100 * (1 / 2 ^ 45)" using c(1) by linarith
  with mg small have "\<bar>?z * 100 - of_int ?m0\<bar> < 1 / 2" by linarith
  then show ?thesis by (rule round_half_even_unique)
qed

subsection \<open>The rounding at particular numbers\<close>

text \<open>
  One tenth is the double \<open>0x1.999999999999ap-4\<close>, and an integer below \<open>2^53\<close> is its own
  double. At a tie the double arithmetic decides: 23 complete records of 160 are 14.375 per
  cent and score 14.37, 93 of 160 are 58.125 per cent and score 58.13.
\<close>

lemma fl_one_tenth: "fl (1 / 10) = 3602879701896397 / 36028797018963968"
  by code_simp

lemma fl_hundred: "fl 100 = 100"
  by code_simp

lemma score_2_of_3: "py_round2 (py_mul (py_truediv 2 3) 100) = fl (6667 / 100)"
  by code_simp

lemma fl_6667_ne_6666: "fl (6667 / 100) \<noteq> fl (6666 / 100)"
  by code_simp

lemma score_0_of_1: "py_round2 (py_mul (py_truediv 0 1) 100) = 0"
  by code_simp

lemma score_23_of_160: "py_round2 (py_mul (py_truediv 23 160) 100) = fl (1437 / 100)"
  by code_simp

lemma score_93_of_160: "py_round2 (py_mul (py_truediv 93 160) 100) = fl (5813 / 100)"
  by code_simp

lemma fl_1437_ne_1438: "fl (1437 / 100) \<noteq> fl (1438 / 100)"
  by code_simp

subsection \<open>A record with a missing critical field is counted once\<close>

lemma check_critical_flag:
  "snd (check_critical r fs (mc, b)) \<longleftrightarrow> b \<or> (\<exists>f \<in> set fs. dict_get r f = PNone)"
  by (induction fs arbitrary: mc b) auto

lemma missing_records_scan_record:
  "missing_records (scan_record st r) =
     missing_records st + (if has_missing_critical r then 1 else 0)"
proof -
  obtain mc b where c: "check_critical r critical_fields (missing_critical st, False) = (mc, b)"
    by (cases "check_critical r critical_fields (missing_critical st, False)")
  from check_critical_flag[of r critical_fields "missing_critical st" False] c
  have "b = has_missing_critical r" by (simp add: has_missing_critical_def)
  with c show ?thesis by (simp add: scan_record_def)
qed

lemma missing_records_foldl:
  "missing_records (foldl scan_record st data) =
     missing_records st + length (filter has_missing_critical data)"
  by (induction data arbitrary: st) (simp_all add: missing_records_scan_record)

lemma missing_records_scan:
  "missing_records (scan_records data) = length (filter has_missing_critical data)"
  by (simp add: scan_records_def missing_records_foldl)

subsection \<open>Typed records get a report unless the average raises\<close>

lemma truthy_str: "is_str_or_none v \<Longrightarrow> py_truthy v \<Longrightarrow> \<exists>s. v = PStr s"
  by (cases v) (simp_all add: is_str_or_none_def)

lemma present_num: "is_num_or_none v \<Longrightarrow> v \<noteq> PNone \<Longrightarrow> \<exists>q. v = PNum q"
  by (cases v) (simp_all add: is_num_or_none_def)

lemma scan_record_typed:
  assumes "normalized_record r" and "all_str (fuel_type_set st)"
    and "all_str (settlement_dates st)" and "all_num (quantities st)"
  shows "all_str (fuel_type_set (scan_record st r))"
    and "all_str (settlement_dates (scan_record st r))"
    and "all_num (quantities (scan_record st r))"
proof -
  obtain mc b where c: "check_critical r critical_fields (missing_critical st, False) = (mc, b)"
    by (cases "check_critical r critical_fields (missing_critical st, False)")
  from assms(1) have n: "is_str_or_none (dict_get r ''psrType'')"
    "is_str_or_none (dict_get r ''settlementDate'')" "is_num_or_none (dict_get r ''quantity'')"
    by (simp_all add: normalized_record_def)
  show "all_str (fuel_type_set (scan_record st r))"
    using c assms(2) truthy_str[OF n(1)] by (auto simp: scan_record_def all_str_def)
  show "all_str (settlement_dates (scan_record st r))"
    using c assms(3) truthy_str[OF n(2)] by (auto simp: scan_record_def all_str_def)
  show "all_num (quantities (scan_record st r))"
    using c assms(4) present_num[OF n(3)] by (auto simp: scan_record_def all_num_def)
qed

lemma foldl_scan_typed:
  "\<forall>r \<in> set data. normalized_record r \<Longrightarrow>
   all_str (fuel_type_set st) \<and> all_str (settlement_dates st) \<and> all_num (quantities st) \<Longrightarrow>
   all_str (fuel_type_set (foldl scan_record st data)) \<and>
   all_str (settlement_dates (foldl scan_record st data)) \<and>
   all_num (quantities (foldl scan_record st data))"
proof (induction data arbitrary: st)
  case Nil
  then show ?case by simp
next
  case (Cons r data)
  from Cons.prems have "normalized_record r" by simp
  from scan_record_typed[OF this] Cons.prems(2)
  have "all_str (fuel_type_set (scan_record st r)) \<and>
        all_str (settlement_dates (scan_record st r)) \<and> all_num (quantities (scan_record st r))"
    by blast
  moreover from Cons.prems have "\<forall>r \<in> set data. normalized_record r" by simp
  ultimately show ?case using Cons.IH[of "scan_record st r"] by simp
qed

lemma scan_records_typed:
  "\<forall>r \<in> set data. normalized_record r \<Longrightarrow>
   all_str (fuel_type_set (scan_records data)) \<and>
   all_str (settlement_dates (scan_records data)) \<and>
   all_num (quantities (scan_records data))"
  unfolding scan_records_def
  by (rule foldl_scan_typed) (simp_all add: all_str_def all_num_def)

lemma py_min_from_str: "all_str xs \<Longrightarrow> \<exists>v. py_min_from (PStr s) xs = Inr v"
proof (induction xs arbitrary: s)
  case Nil
  show ?case by simp
next
  case (Cons x xs)
  then obtain t where "x = PStr t" "all_str xs" by (auto simp: all_str_def)
  then show ?case using Cons.IH by simp
qed

lemma py_max_from_str: "all_str xs \<Longrightarrow> \<exists>v. py_max_from (PStr s) xs = Inr v"
proof (induction xs arbitrary: s)
  case Nil
  show ?case by simp
next
  case (Cons x xs)
  then obtain t where "x = PStr t" "all_str xs" by (auto simp: all_str_def)
  then show ?case using Cons.IH by simp
qed

lemma py_min_from_num: "all_num xs \<Longrightarrow> \<exists>v. py_min_from (PNum q) xs = Inr v"
proof (induction xs arbitrary: q)
  case Nil
  show ?case by simp
next
  case (Cons x xs)
  then obtain t where "x = PNum t" "all_num xs" by (auto simp: all_num_def)
  then show ?case using Cons.IH by simp
qed

lemma py_max_from_num: "all_num xs \<Longrightarrow> \<exists>v. py_max_from (PNum q) xs = Inr v"
proof (induction xs arbitrary: q)
  case Nil
  show ?case by simp
next
  case (Cons x xs)
  then obtain t where "x = PNum t" "all_num xs" by (auto simp: all_num_def)
  then show ?case using Cons.IH by simp
qed

lemma insert_asc_str:
  "all_str ys \<Longrightarrow> \<exists>zs. insert_asc (PStr s) ys = Inr zs \<and> all_str zs"
proof (induction ys)
  case Nil
  show ?case by (simp add: all_str_def)
next
  case (Cons y ys)
  then obtain t where y: "y = PStr t" and ys: "all_str ys" by (auto simp: all_str_def)
  from Cons.IH[OF ys] obtain zs where zs: "insert_asc (PStr s) ys = Inr zs" "all_str zs" by blast
  show ?case
  proof (cases "t < s")
    case True
    with y zs show ?thesis by (simp add: all_str_def)
  next
    case False
    with y ys show ?thesis by (simp add: all_str_def)
  qed
qed

lemma py_sorted_str: "all_str xs \<Longrightarrow> \<exists>zs. py_sorted xs = Inr zs \<and> all_str zs"
proof (induction xs)
  case Nil
  show ?case by (simp add: all_str_def)
next
  case (Cons x xs)
  then obtain t where x: "x = PStr t" and xs: "all_str xs" by (auto simp: all_str_def)
  from Cons.IH[OF xs] obtain ys where ys: "py_sorted xs = Inr ys" "all_str ys" by blast
  from insert_asc_str[OF ys(2), of t] x ys(1) show ?case by simp
qed

lemma quantity_stats_of_num:
  assumes "all_num qs"
  shows "qs = [] \<Longrightarrow> quantity_stats_of average qs = Inr None"
    and "qs \<noteq> [] \<Longrightarrow> average qs = Inl e \<Longrightarrow> quantity_stats_of average qs = Inl e"
    and "qs \<noteq> [] \<Longrightarrow> average qs = Inr a \<Longrightarrow> \<exists>v. quantity_stats_of average qs = Inr v"
proof -
  show "qs = [] \<Longrightarrow> quantity_stats_of average qs = Inr None"
    by (simp add: quantity_stats_of_def)
  { assume "qs \<noteq> []"
    then obtain q rest where c: "qs = q # rest" by (cases qs) auto
    with assms obtain t where q: "q = PNum t" and r: "all_num rest" by (auto simp: all_num_def)
    from py_min_from_num[OF r, of t] obtain lo where lo: "py_min_from (PNum t) rest = Inr lo"
      by blast
    from py_max_from_num[OF r, of t] obtain hi where hi: "py_max_from (PNum t) rest = Inr hi"
      by blast
    have "average qs = Inl e \<Longrightarrow> quantity_stats_of average qs = Inl e"
      using c q lo hi by (simp add: quantity_stats_of_def)
    moreover have "average qs = Inr a \<Longrightarrow> \<exists>v. quantity_stats_of average qs = Inr v"
      using c q lo hi by (simp add: quantity_stats_of_def)
    ultimately have "(average qs = Inl e \<longrightarrow> quantity_stats_of average qs = Inl e) \<and>
        (average qs = Inr a \<longrightarrow> (\<exists>v. quantity_stats_of average qs = Inr v))" by blast }
  note n = this
  show "qs \<noteq> [] \<Longrightarrow> average qs = Inl e \<Longrightarrow> quantity_stats_of average qs = Inl e"
    using n by blast
  show "qs \<noteq> [] \<Longrightarrow> average qs = Inr a \<Longrightarrow> \<exists>v. quantity_stats_of average qs = Inr v"
    using n by blast
qed

lemma date_bound_str:
  "all_str ds \<Longrightarrow> \<exists>v. date_bound py_min_from ds = Inr v"
  "all_str ds \<Longrightarrow> \<exists>v. date_bound py_max_from ds = Inr v"
proof -
  assume a: "all_str ds"
  show "\<exists>v. date_bound py_min_from ds = Inr v"
  proof (cases ds)
    case Nil
    then show ?thesis by (simp add: date_bound_def)
  next
    case (Cons d rest)
    with a obtain t where "d = PStr t" "all_str rest" by (auto simp: all_str_def)
    with Cons py_min_from_str[of rest t] show ?thesis by (simp add: date_bound_def)
  qed
  show "\<exists>v. date_bound py_max_from ds = Inr v"
  proof (cases ds)
    case Nil
    then show ?thesis by (simp add: date_bound_def)
  next
    case (Cons d rest)
    with a obtain t where "d = PStr t" "all_str rest" by (auto simp: all_str_def)
    with Cons py_max_from_str[of rest t] show ?thesis by (simp add: date_bound_def)
  qed
qed

lemma validate_processed_data_raises:
  assumes "data \<noteq> []" and "\<forall>r \<in> set data. normalized_record r"
    and "quantities (scan_records data) \<noteq> []"
    and "average (quantities (scan_records data)) = Inl e"
  shows "validate_processed_data average data = Inl e"
proof -
  from scan_records_typed[OF assms(2)] have t: "all_num (quantities (scan_records data))"
    by simp
  from quantity_stats_of_num(2)[where average = average, OF t assms(3,4)] assms(1) show ?thesis
    by (simp add: validate_processed_data_def Let_def)
qed

lemma validate_processed_data_report:
  assumes "data \<noteq> []" and "\<forall>r \<in> set data. normalized_record r"
    and "averaging_returns average data"
  shows "\<exists>rep. validate_processed_data average data = Inr (ValidationSuccess rep) \<and>
     record_count rep = length data \<and>
     records_with_missing_critical rep = length (filter has_missing_critical data) \<and>
     data_quality_score rep =
       py_round2 (py_mul (py_truediv
         (int (length data) - int (length (filter has_missing_critical data)))
         (int (length data))) 100)"
proof -
  from scan_records_typed[OF assms(2)] have t: "all_str (fuel_type_set (scan_records data))"
    "all_str (settlement_dates (scan_records data))" "all_num (quantities (scan_records data))"
    by simp_all
  have "\<exists>qstats. quantity_stats_of average (quantities (scan_records data)) = Inr qstats"
  proof (cases "quantities (scan_records data) = []")
    case True
    from quantity_stats_of_num(1)[OF t(3) True] show ?thesis by blast
  next
    case False
    with assms(3) have "\<not> isl (average (quantities (scan_records data)))"
      by (simp add: averaging_returns_def)
    then obtain a where "average (quantities (scan_records data)) = Inr a"
      by (cases "average (quantities (scan_records data))") auto
    from quantity_stats_of_num(3)[where average = average, OF t(3) False this] show ?thesis .
  qed
  then obtain qstats where
    q: "quantity_stats_of average (quantities (scan_records data)) = Inr qstats" by blast
  from py_sorted_str[OF t(1)] obtain fts where
    f: "py_sorted (fuel_type_set (scan_records data)) = Inr fts" by blast
  from date_bound_str(1)[OF t(2)] obtain dmin where
    lo: "date_bound py_min_from (settlement_dates (scan_records data)) = Inr dmin" by blast
  from date_bound_str(2)[OF t(2)] obtain dmax where
    hi: "date_bound py_max_from (settlement_dates (scan_records data)) = Inr dmax" by blast
  show ?thesis
    using assms(1) q f lo hi
    by (simp add: validate_processed_data_def Let_def missing_records_scan)
qed

lemma validate_processed_data_report_iff:
  assumes "data \<noteq> []" and "\<forall>r \<in> set data. normalized_record r"
  shows "(\<exists>rep. validate_processed_data average data = Inr (ValidationSuccess rep)) \<longleftrightarrow>
           averaging_returns average data"
proof
  assume "averaging_returns average data"
  from validate_processed_data_report[OF assms this]
  show "\<exists>rep. validate_processed_data average data = Inr (ValidationSuccess rep)" by blast
next
  assume r: "\<exists>rep. validate_processed_data average data = Inr (ValidationSuccess rep)"
  show "averaging_returns average data"
  proof (rule ccontr)
    assume "\<not> averaging_returns average data"
    then have ne: "quantities (scan_records data) \<noteq> []"
      and "isl (average (quantities (scan_records data)))"
      by (simp_all add: averaging_returns_def)
    then obtain e where "average (quantities (scan_records data)) = Inl e"
      by (cases "average (quantities (scan_records data))") auto
    from validate_processed_data_raises[where average = average, OF assms ne this] r show False by simp
  qed
qed

lemma missing_le_length: "length (filter has_missing_critical data) \<le> length data"
  by (rule length_filter_le)

subsection \<open>The score and the exact percentage\<close>

lemma exact_sum_num: "all_num qs \<Longrightarrow> \<exists>s. exact_sum qs = Inr s"
proof (induction qs)
  case Nil
  show ?case by simp
next
  case (Cons q qs)
  then obtain t where "q = PNum t" "all_num qs" by (auto simp: all_num_def)
  with Cons.IH show ?case by auto
qed

lemma exact_mean_returns:
  assumes "\<forall>r \<in> set data. normalized_record r"
  shows "averaging_returns exact_mean data"
proof -
  from scan_records_typed[OF assms] have "all_num (quantities (scan_records data))" by simp
  from exact_sum_num[OF this] show ?thesis
    by (auto simp: averaging_returns_def exact_mean_def)
qed

lemma sample_tie_data_facts:
  "sample_tie_data \<noteq> []" "\<forall>r \<in> set sample_tie_data. normalized_record r"
  "length sample_tie_data = 160" "length (filter has_missing_critical sample_tie_data) = 137"
  by (simp_all add: sample_tie_data_def sample_complete_record_def sample_incomplete_record_def
      normalized_record_def is_str_or_none_def is_num_or_none_def has_missing_critical_def
      critical_fields_def dict_get_def)

lemma exact_percentage_tie:
  "exact_percentage 160 137 = 115 / 8"
  "round_half_even (100 * exact_percentage 160 137) = 1438"
  "\<lfloor>100 * exact_percentage 160 137 + 1 / 2\<rfloor> = 1438"
proof -
  show e: "exact_percentage 160 137 = 115 / 8" by (simp add: exact_percentage_def)
  have "round_half_even (2875 / 2) = 1438" by code_simp
  then show "round_half_even (100 * exact_percentage 160 137) = 1438" by (simp add: e)
  have "\<lfloor>(1438 :: rat)\<rfloor> = 1438" by (simp only: floor_numeral)
  then show "\<lfloor>100 * exact_percentage 160 137 + 1 / 2\<rfloor> = 1438" by (simp add: e)
qed

text \<open>
  Claim C2 has the score equal to the percentage of complete records rounded to two decimal
  places. Of 160 records with 137 incomplete ones the percentage is 14.375 exactly, which
  rounds to 14.38 (ties to even, and ties upwards as well); the quality gate scores 14.37,
  the double arithmetic having brought the product below the tie.
\<close>

theorem score_at_tie_counterexample:
  "length sample_tie_data = 160 \<and>
   length (filter has_missing_critical sample_tie_data) = 137 \<and>
   exact_percentage 160 137 = 115 / 8 \<and>
   round_half_even (100 * exact_percentage 160 137) = 1438 \<and>
   \<lfloor>100 * exact_percentage 160 137 + 1 / 2\<rfloor> = 1438 \<and>
   score_of (validate_processed_data exact_mean sample_tie_data) = Some (fl (1437 / 100)) \<and>
   fl (1437 / 100) \<noteq> fl (1438 / 100)"
proof -
  note f = sample_tie_data_facts
  from validate_processed_data_report[OF f(1) f(2) exact_mean_returns[OF f(2)]]
  obtain rep where r: "validate_processed_data exact_mean sample_tie_data = Inr (ValidationSuccess rep)"
    and s: "data_quality_score rep =
       py_round2 (py_mul (py_truediv
         (int (length sample_tie_data) - int (length (filter has_missing_critical sample_tie_data)))
         (int (length sample_tie_data))) 100)"
    by blast
  have "data_quality_score rep = fl (1437 / 100)"
    unfolding s f(3) f(4) using score_23_of_160 by simp
  with r have "score_of (validate_processed_data exact_mean sample_tie_data) = Some (fl (1437 / 100))"
    by (simp add: score_of_def)
  with f(3,4) exact_percentage_tie fl_1437_ne_1438 show ?thesis by simp
qed

text \<open>
  Claim C2, amended. For every non-empty list of normalized records the processed quality
  gate returns a report exactly when averaging the quantities raises nothing. In a report,
  \<open>records_with_missing_critical\<close> is the number of records with at least one null critical
  field, each counted once, and \<open>data_quality_score\<close> is the double nearest to a number of
  two decimals that lies within \<open>0.005 + 2^-45\<close> of the exact percentage
  \<open>(total - missing) / total * 100\<close>. For fewer than \<open>2^30\<close> records it is the double nearest
  to the exact percentage rounded to two decimals, unless the exact percentage is halfway
  between two numbers of two decimals. Two complete records of three give the double written
  66.67 (and not 66.66); none of one gives 0.0.
\<close>

theorem data_quality_score_formula:
  assumes "data \<noteq> []" and "\<forall>r \<in> set data. normalized_record r"
  shows "((\<exists>rep. validate_processed_data average data = Inr (ValidationSuccess rep)) \<longleftrightarrow>
            averaging_returns average data) \<and>
     (\<forall>rep. validate_processed_data average data = Inr (ValidationSuccess rep) \<longrightarrow>
        records_with_missing_critical rep = length (filter has_missing_critical data) \<and>
        (\<exists>d. 0 \<le> d \<and> data_quality_score rep = fl (of_int d / 100) \<and>
           \<bar>of_int d / 100 -
              exact_percentage (length data) (length (filter has_missing_critical data))\<bar>
             \<le> 1 / 200 + 1 / 2 ^ 45) \<and>
        (length data < 2 ^ 30 \<and>
         \<not> halfway (100 * exact_percentage (length data)
                        (length (filter has_missing_critical data))) \<longrightarrow>
           data_quality_score rep =
             fl (of_int (round_half_even
                   (100 * exact_percentage (length data)
                            (length (filter has_missing_critical data)))) / 100)) \<and>
        (length data = 3 \<and> length (filter has_missing_critical data) = 1 \<longrightarrow>
           data_quality_score rep = fl (6667 / 100) \<and>
           data_quality_score rep \<noteq> fl (6666 / 100)) \<and>
        (length data = 1 \<and> length (filter has_missing_critical data) = 1 \<longrightarrow>
           data_quality_score rep = 0))"
proof -
  let ?n = "length data" and ?m = "length (filter has_missing_critical data)"
  let ?z = "py_mul (py_truediv (int ?n - int ?m) (int ?n)) 100"
  have n0: "0 < ?n" using assms(1) by simp
  have mn: "?m \<le> ?n" by (rule length_filter_le)
  have iff: "(\<exists>rep. validate_processed_data average data = Inr (ValidationSuccess rep)) \<longleftrightarrow>
            averaging_returns average data"
    by (rule validate_processed_data_report_iff[OF assms])
  have b: "\<exists>d. 0 \<le> d \<and> py_round2 ?z = fl (of_int d / 100) \<and>
           \<bar>of_int d / 100 - exact_percentage ?n ?m\<bar> \<le> 1 / 200 + 1 / 2 ^ 45"
    using score_two_decimals[OF n0 mn]
    by (intro exI[of _ "round_half_even (?z * 100)"]) (simp add: py_round2_def)
  have c: "?n < 2 ^ 30 \<and> \<not> halfway (100 * exact_percentage ?n ?m) \<longrightarrow>
      py_round2 ?z = fl (of_int (round_half_even (100 * exact_percentage ?n ?m)) / 100)"
    using score_exact_rounding[OF n0 mn] by (simp add: py_round2_def)
  have d: "?n = 3 \<and> ?m = 1 \<longrightarrow>
      py_round2 ?z = fl (6667 / 100) \<and> py_round2 ?z \<noteq> fl (6666 / 100)"
    using score_2_of_3 fl_6667_ne_6666 by simp
  have e: "?n = 1 \<and> ?m = 1 \<longrightarrow> py_round2 ?z = 0"
    using score_0_of_1 by simp
  have main: "\<forall>rep. validate_processed_data average data = Inr (ValidationSuccess rep) \<longrightarrow>
      records_with_missing_critical rep = ?m \<and> data_quality_score rep = py_round2 ?z"
  proof (intro allI impI)
    fix rep
    assume v: "validate_processed_data average data = Inr (ValidationSuccess rep)"
    then have "averaging_returns average data" using iff by blast
    from validate_processed_data_report[OF assms this] v
    show "records_with_missing_critical rep = ?m \<and> data_quality_score rep = py_round2 ?z"
      by auto
  qed
  show ?thesis
  proof (rule conjI)
    show "(\<exists>rep. validate_processed_data average data = Inr (ValidationSuccess rep)) \<longleftrightarrow>
            averaging_returns average data" by (rule iff)
  next
    show "\<forall>rep. validate_processed_data average data = Inr (ValidationSuccess rep) \<longrightarrow>
        records_with_missing_critical rep = ?m \<and>
        (\<exists>d. 0 \<le> d \<and> data_quality_score rep = fl (of_int d / 100) \<and>
           \<bar>of_int d / 100 - exact_percentage ?n ?m\<bar> \<le> 1 / 200 + 1 / 2 ^ 45) \<and>
        (?n < 2 ^ 30 \<and> \<not> halfway (100 * exact_percentage ?n ?m) \<longrightarrow>
           data_quality_score rep =
             fl (of_int (round_half_even (100 * exact_percentage ?n ?m)) / 100)) \<and>
        (?n = 3 \<and> ?m = 1 \<longrightarrow>
           data_quality_score rep = fl (6667 / 100) \<and>
           data_quality_score rep \<noteq> fl (6666 / 100)) \<and>
        (?n = 1 \<and> ?m = 1 \<longrightarrow> data_quality_score rep = 0)"
    proof (intro allI impI)
      fix rep
      assume v: "validate_processed_data average data = Inr (ValidationSuccess rep)"
      with main have m: "records_with_missing_critical rep = ?m"
        and s: "data_quality_score rep = py_round2 ?z" by simp_all
      note b' = b[folded s] and c' = c[folded s] and d' = d[folded s] and e' = e[folded s]
      show "records_with_missing_critical rep = ?m \<and>
        (\<exists>d. 0 \<le> d \<and> data_quality_score rep = fl (of_int d / 100) \<and>
           \<bar>of_int d / 100 - exact_percentage ?n ?m\<bar> \<le> 1 / 200 + 1 / 2 ^ 45) \<and>
        (?n < 2 ^ 30 \<and> \<not> halfway (100 * exact_percentage ?n ?m) \<longrightarrow>
           data_quality_score rep =
             fl (of_int (round_half_even (100 * exact_percentage ?n ?m)) / 100)) \<and>
        (?n = 3 \<and> ?m = 1 \<longrightarrow>
           data_quality_score rep = fl (6667 / 100) \<and>
           data_quality_score rep \<noteq> fl (6666 / 100)) \<and>
        (?n = 1 \<and> ?m = 1 \<longrightarrow> data_quality_score rep = 0)"
        by (rule conjI[OF m conjI[OF b' conjI[OF c' conjI[OF d' e']]]])
    qed
  qed
qed

lemma sample_partial_data_facts:
  "sample_partial_data \<noteq> []" "\<forall>r \<in> set sample_partial_data. normalized_record r"
  "length sample_partial_data = 3" "length (filter has_missing_critical sample_partial_data) = 1"
  by (simp_all add: sample_partial_data_def normalized_record_def is_str_or_none_def
      is_num_or_none_def has_missing_critical_def critical_fields_def dict_get_def)

theorem data_quality_score_formula_witness:
  "sample_partial_data \<noteq> [] \<and> list_all normalized_record sample_partial_data \<and>
   length sample_partial_data = 3 \<and>
   length (filter has_missing_critical sample_partial_data) = 1 \<and>
   averaging_returns exact_mean sample_partial_data \<and>
   (\<exists>rep. validate_processed_data exact_mean sample_partial_data = Inr (ValidationSuccess rep) \<and>
      records_with_missing_critical rep = 1 \<and>
      data_quality_score rep = fl (6667 / 100) \<and>
      data_quality_score rep \<noteq> fl (6666 / 100))"
proof -
  note f = sample_partial_data_facts
  note a = exact_mean_returns[OF f(2)]
  note t = data_quality_score_formula[OF f(1) f(2), of exact_mean]
  from t a obtain rep where
    r: "validate_processed_data exact_mean sample_partial_data = Inr (ValidationSuccess rep)"
    by blast
  with t f(3,4) have "records_with_missing_critical rep = 1"
    "data_quality_score rep = fl (6667 / 100)" "data_quality_score rep \<noteq> fl (6666 / 100)"
    by auto
  moreover have "list_all normalized_record sample_partial_data"
    using f(2) by (simp add: list_all_iff)
  ultimately show ?thesis using r a f(1,3,4) by blast
qed

end
